theory Spec2Isabelle
  imports Complex_Main "HOL-Library.Word" "HOL-Library.Multiset"
begin

section \<open>Machine numbers\<close>

text \<open>
  The C++ type \<^verbatim>\<open>int\<close> is a 32-bit two's complement integer: a \<open>32 word\<close>, read
  with \<open>sint\<close>. Signed overflow is undefined in C++; the model gives it the value
  the hardware computes, so \<open>+\<close> wraps around.
\<close>

type_synonym cint = "32 word"

text \<open>
  The C++ type \<^verbatim>\<open>double\<close> is IEEE-754 binary64. A finite double is modelled by the
  rational number it denotes. Every arithmetic operation computes the exact result and
  rounds it to the nearest number with a 53-bit significand, ties to the even
  significand (the default rounding mode). The exponent range is not bounded in the
  model: overflow to infinity, subnormal numbers and NaN are outside it.
\<close>

type_synonym double = rat

function bit_length :: "int \<Rightarrow> int" where
  \<comment> \<open>the number of binary digits of a positive integer\<close>
  "bit_length n = (if n \<le> 0 then 0 else 1 + bit_length (n div 2))"
  by pat_completeness auto
termination
  by (relation "measure nat") auto

declare bit_length.simps [simp del]

definition ilog2 :: "rat \<Rightarrow> int" where
  \<comment> \<open>the floor of the binary logarithm of a positive rational\<close>
  "ilog2 x = (if 1 \<le> x then bit_length \<lfloor>x\<rfloor> - 1
              else - bit_length (\<lceil>1 / x\<rceil> - 1))"

definition pow2 :: "int \<Rightarrow> rat" where
  "pow2 e = (if 0 \<le> e then 2 ^ nat e else 1 / 2 ^ nat (- e))"

definition round_half_even :: "rat \<Rightarrow> int" where
  "round_half_even x =
     (let f = \<lfloor>x\<rfloor>; r = x - of_int f
      in if r < 1 / 2 then f else if 1 / 2 < r then f + 1
         else if even f then f else f + 1)"

definition round_double :: "rat \<Rightarrow> double" where
  "round_double x =
     (if x = 0 then 0
      else let e = ilog2 \<bar>x\<bar> - 52
           in of_int (round_half_even (x / pow2 e)) * pow2 e)"

definition dadd :: "double \<Rightarrow> double \<Rightarrow> double" where
  "dadd x y = round_double (x + y)"

definition dmul :: "double \<Rightarrow> double \<Rightarrow> double" where
  "dmul x y = round_double (x * y)"

definition double_of_int :: "cint \<Rightarrow> double" where
  \<comment> \<open>the implicit conversion of an \<^verbatim>\<open>int\<close> operand; exact for 32-bit values\<close>
  "double_of_int q = of_int (sint q)"

definition literal :: "rat \<Rightarrow> double" where
  \<comment> \<open>a decimal literal of the source denotes the nearest double\<close>
  "literal x = round_double x"

section \<open>Exceptions and faults\<close>

text \<open>
  The exception classes of the source, each with the message its constructor fixes,
  \<^verbatim>\<open>std::out_of_range\<close> of the string library, and the three ways in which the
  program can leave defined behaviour: dereferencing a null pointer, using a deleted
  object, and indexing an array outside its bounds.
\<close>

datatype error =
    ECommerceException string
  | InvalidIDException
  | EmptyCartException
  | NoOrdersException
  | InvalidInputException
  | OutOfRange
  | NullPointerDereference
  | DanglingPointer
  | ArrayIndexOutOfBounds

fun is_exception :: "error \<Rightarrow> bool" where
  "is_exception NullPointerDereference = False"
| "is_exception DanglingPointer = False"
| "is_exception ArrayIndexOutOfBounds = False"
| "is_exception _ = True"

fun what :: "error \<Rightarrow> string" where
  "what (ECommerceException m) = m"
| "what InvalidIDException = ''Invalid product ID''"
| "what EmptyCartException = ''Shopping cart is empty''"
| "what NoOrdersException = ''No orders found''"
| "what InvalidInputException = ''Invalid input. Please enter a valid number.''"
| "what _ = ''''"

section \<open>Products, cart items and the heap\<close>

record Product =
  getId :: cint
  getName :: string
  getPrice :: double

record CartItem =
  getProduct :: Product
  getQuantity :: cint

definition setQuantity :: "cint \<Rightarrow> CartItem \<Rightarrow> CartItem" where
  "setQuantity qty it = it\<lparr>getQuantity := qty\<rparr>"

definition getTotalPrice :: "CartItem \<Rightarrow> double" where
  "getTotalPrice it = dmul (getPrice (getProduct it)) (double_of_int (getQuantity it))"

text \<open>
  Cart items live on the heap (\<^verbatim>\<open>new CartItem\<close>, \<^verbatim>\<open>delete items[i]\<close>) and are
  reached through pointers. The heap is a list of cells indexed by address; \<open>None\<close> is
  a free cell. \<^verbatim>\<open>new\<close> takes the lowest free cell, so the address of a deleted item
  is handed out again.
\<close>

type_synonym addr = nat
type_synonym heap = "CartItem option list"

definition deref :: "heap \<Rightarrow> addr \<Rightarrow> CartItem option" where
  "deref h a = (if a < length h then h ! a else None)"

fun first_free :: "heap \<Rightarrow> addr" where
  "first_free [] = 0"
| "first_free (None # h) = 0"
| "first_free (Some v # h) = Suc (first_free h)"

definition new_CartItem :: "CartItem \<Rightarrow> heap \<Rightarrow> addr \<times> heap" where
  "new_CartItem v h =
     (let a = first_free h
      in (a, if a < length h then h[a := Some v] else h @ [Some v]))"

definition delete_CartItem :: "addr \<Rightarrow> heap \<Rightarrow> error + heap" where
  "delete_CartItem a h =
     (case deref h a of None \<Rightarrow> Inl DanglingPointer | Some v \<Rightarrow> Inr (h[a := None]))"

section \<open>The shopping cart\<close>

text \<open>
  \<^verbatim>\<open>class ShoppingCart\<close>: the array \<^verbatim>\<open>items\<close> of pointers with its \<^verbatim>\<open>capacity\<close>;
  the list holds the \<^verbatim>\<open>count\<close> slots in use, so \<^verbatim>\<open>count\<close> is its length. The cart
  is a singleton, created with capacity 10 and no item.
\<close>

record ShoppingCart =
  getItems :: "addr list"
  capacity :: nat

definition getItemCount :: "ShoppingCart \<Rightarrow> nat" where
  "getItemCount c = length (getItems c)"

record store =
  heap :: heap
  cart :: ShoppingCart

definition getInstance :: ShoppingCart where
  "getInstance = \<lparr>getItems = [], capacity = 10\<rparr>"

definition initial_store :: store where
  "initial_store = \<lparr>heap = [], cart = getInstance\<rparr>"

fun find_line :: "heap \<Rightarrow> addr list \<Rightarrow> cint \<Rightarrow> error + addr option" where
  "find_line h [] pid = Inr None"
| "find_line h (a # as) pid =
     (case deref h a of
        None \<Rightarrow> Inl DanglingPointer
      | Some it \<Rightarrow> if getId (getProduct it) = pid then Inr (Some a) else find_line h as pid)"

definition addProduct :: "Product \<Rightarrow> cint \<Rightarrow> store \<Rightarrow> error + store" where
  "addProduct product quantity s =
     (case find_line (heap s) (getItems (cart s)) (getId product) of
        Inl e \<Rightarrow> Inl e
      | Inr (Some a) \<Rightarrow>
          (case deref (heap s) a of
             None \<Rightarrow> Inl DanglingPointer
           | Some it \<Rightarrow>
               Inr (s\<lparr>heap := (heap s)[a := Some (setQuantity (getQuantity it + quantity) it)]\<rparr>))
      | Inr None \<Rightarrow>
          (let c = cart s;
               cap = (if getItemCount c = capacity c then capacity c * 2 else capacity c);
               (a, h) = new_CartItem \<lparr>getProduct = product, getQuantity = quantity\<rparr> (heap s)
           in if getItemCount c < cap
              then Inr (s\<lparr>heap := h, cart := \<lparr>getItems = getItems c @ [a], capacity = cap\<rparr>\<rparr>)
              else Inl ArrayIndexOutOfBounds))"

fun sum_items :: "heap \<Rightarrow> addr list \<Rightarrow> double \<Rightarrow> error + double" where
  "sum_items h [] tot = Inr tot"
| "sum_items h (a # as) tot =
     (case deref h a of
        None \<Rightarrow> Inl DanglingPointer
      | Some it \<Rightarrow> sum_items h as (dadd tot (getTotalPrice it)))"

definition getTotalAmount :: "store \<Rightarrow> error + double" where
  "getTotalAmount s =
     (if getItemCount (cart s) = 0 then Inl EmptyCartException
      else sum_items (heap s) (getItems (cart s)) 0)"

fun delete_items :: "addr list \<Rightarrow> heap \<Rightarrow> error + heap" where
  "delete_items [] h = Inr h"
| "delete_items (a # as) h =
     (case delete_CartItem a h of Inl e \<Rightarrow> Inl e | Inr h' \<Rightarrow> delete_items as h')"

definition clearCart :: "store \<Rightarrow> error + store" where
  "clearCart s =
     (case delete_items (getItems (cart s)) (heap s) of
        Inl e \<Rightarrow> Inl e
      | Inr h \<Rightarrow> Inr (s\<lparr>heap := h, cart := (cart s)\<lparr>getItems := []\<rparr>\<rparr>))"

definition isEmpty :: "store \<Rightarrow> bool" where
  "isEmpty s = (getItemCount (cart s) = 0)"

section \<open>The cart as a list of lines\<close>

text \<open>
  The lines of the cart are the items its pointers reach, in array order. A store is
  well formed when the cart's pointers are distinct and live, no two lines have the
  same product id, and the count does not exceed the capacity. \<open>add_line\<close> is what
  \<^verbatim>\<open>addProduct\<close> does to the list of lines.
\<close>

definition line_id :: "CartItem \<Rightarrow> cint" where
  "line_id it = getId (getProduct it)"

definition cart_lines :: "store \<Rightarrow> CartItem list" where
  "cart_lines s = List.map_filter (deref (heap s)) (getItems (cart s))"

definition wf_store :: "store \<Rightarrow> bool" where
  "wf_store s \<longleftrightarrow>
     distinct (getItems (cart s)) \<and>
     (\<forall>a \<in> set (getItems (cart s)). deref (heap s) a \<noteq> None) \<and>
     distinct (map line_id (cart_lines s)) \<and>
     getItemCount (cart s) \<le> capacity (cart s) \<and> 0 < capacity (cart s)"

fun add_line :: "Product \<Rightarrow> cint \<Rightarrow> CartItem list \<Rightarrow> CartItem list" where
  "add_line p q [] = [\<lparr>getProduct = p, getQuantity = q\<rparr>]"
| "add_line p q (it # its) =
     (if line_id it = getId p then setQuantity (getQuantity it + q) it # its
      else it # add_line p q its)"

definition lines_for :: "cint \<Rightarrow> store \<Rightarrow> CartItem list" where
  "lines_for pid s = filter (\<lambda>it. line_id it = pid) (cart_lines s)"

definition and_then :: "error + 'a \<Rightarrow> ('a \<Rightarrow> error + 'b) \<Rightarrow> error + 'b" where
  "and_then r f = (case r of Inl e \<Rightarrow> Inl e | Inr v \<Rightarrow> f v)"

definition quantities_for :: "cint \<Rightarrow> error + store \<Rightarrow> error + cint list" where
  "quantities_for pid r = and_then r (\<lambda>s. Inr (map getQuantity (lines_for pid s)))"

definition products :: "Product list" where
  "products =
     [\<lparr>getId = 1, getName = ''Laptop'', getPrice = literal (99999 / 100)\<rparr>,
      \<lparr>getId = 2, getName = ''Smartphone'', getPrice = literal (59999 / 100)\<rparr>,
      \<lparr>getId = 3, getName = ''Headphones'', getPrice = literal (9999 / 100)\<rparr>,
      \<lparr>getId = 4, getName = ''Mouse'', getPrice = literal (1999 / 100)\<rparr>,
      \<lparr>getId = 5, getName = ''Keyboard'', getPrice = literal (4999 / 100)\<rparr>]"

definition headphones :: Product where
  "headphones = products ! 2"

text \<open>A cart that already holds five headphones.\<close>

definition cart_of_five :: store where
  "cart_of_five = \<lparr>heap = [Some \<lparr>getProduct = headphones, getQuantity = 5\<rparr>],
                     cart = \<lparr>getItems = [0], capacity = 10\<rparr>\<rparr>"

section \<open>The total amount\<close>

text \<open>
  A sequence of \<^verbatim>\<open>addProduct\<close> calls, and the lines of the store it returns.
\<close>

fun add_all :: "(Product \<times> cint) list \<Rightarrow> store \<Rightarrow> error + store" where
  "add_all [] s = Inr s"
| "add_all ((p, q) # pqs) s = and_then (addProduct p q s) (add_all pqs)"

definition lines_of :: "error + store \<Rightarrow> CartItem list" where
  "lines_of r = (case r of Inl e \<Rightarrow> [] | Inr s \<Rightarrow> cart_lines s)"

definition laptop :: Product where
  "laptop = products ! 0"

definition smartphone :: Product where
  "smartphone = products ! 1"

text \<open>
  The sum of price times quantity in exact arithmetic, and the carts on which the loop of
  \<^verbatim>\<open>getTotalAmount\<close> never rounds: every product and every partial sum is a double.
\<close>

definition exact_total :: "CartItem list \<Rightarrow> rat" where
  "exact_total ls = (\<Sum>it\<leftarrow>ls. getPrice (getProduct it) * of_int (sint (getQuantity it)))"

fun rounds_nowhere :: "double \<Rightarrow> CartItem list \<Rightarrow> bool" where
  "rounds_nowhere acc [] = True"
| "rounds_nowhere acc (it # its) =
     (let t = getPrice (getProduct it) * of_int (sint (getQuantity it))
      in round_double t = t \<and> round_double (acc + t) = acc + t \<and> rounds_nowhere (acc + t) its)"

text \<open>Two products with binary prices, and the two carts that hold them in either order.\<close>

definition pen :: Product where
  "pen = \<lparr>getId = 6, getName = ''Pen'', getPrice = literal (1 / 2)\<rparr>"

definition clip :: Product where
  "clip = \<lparr>getId = 7, getName = ''Clip'', getPrice = literal (1 / 4)\<rparr>"

definition pen_clip_cart :: store where
  "pen_clip_cart = \<lparr>heap = [Some \<lparr>getProduct = pen, getQuantity = 1\<rparr>,
                              Some \<lparr>getProduct = clip, getQuantity = 3\<rparr>],
                      cart = \<lparr>getItems = [0, 1], capacity = 10\<rparr>\<rparr>"

definition clip_pen_cart :: store where
  "clip_pen_cart = \<lparr>heap = [Some \<lparr>getProduct = clip, getQuantity = 3\<rparr>,
                              Some \<lparr>getProduct = pen, getQuantity = 1\<rparr>],
                      cart = \<lparr>getItems = [0, 1], capacity = 10\<rparr>\<rparr>"

section \<open>Payment strategies\<close>

datatype PaymentStrategy = CashPayment | CardPayment | GCashPayment

fun getMethodName :: "PaymentStrategy \<Rightarrow> string" where
  "getMethodName CashPayment = ''Cash''"
| "getMethodName CardPayment = ''Credit/Debit Card''"
| "getMethodName GCashPayment = ''GCash''"

text \<open>
  The \<^verbatim>\<open>switch\<close> of \<^verbatim>\<open>main\<close> over the payment choice. It has no default case: for
  every other value the pointer \<^verbatim>\<open>strategy\<close> stays null. \<^verbatim>\<open>pay\<close> has an empty body in
  all three classes, so a call does nothing; the call through a null pointer is
  undefined.
\<close>

definition select_strategy :: "cint \<Rightarrow> PaymentStrategy option" where
  "select_strategy paymentChoice =
     (if paymentChoice = 1 then Some CashPayment
      else if paymentChoice = 2 then Some CardPayment
      else if paymentChoice = 3 then Some GCashPayment
      else None)"

section \<open>Console\<close>

text \<open>
  What one pass of the menu loop prints is recorded as a list of events: the data a
  table shows, not its columns. A pass that does not leave the program ends by returning
  to the menu or in undefined behaviour.
\<close>

record shown_order =
  shown_id :: cint
  shown_method :: string
  shown_items :: "CartItem list"
  shown_total :: double

record parsed_order =
  parsed_id :: string
  parsed_method :: string
  parsed_items :: "(string \<times> string \<times> string \<times> string) list"
  parsed_total :: "string option"

datatype event =
    Print string
  | Error string
  | ShowCart "CartItem list"
  | ShowOrders "shown_order list"
  | ShowLog "parsed_order list"
  | Receipt string string double

datatype control = Continue | Crash error

definition toupper :: "char \<Rightarrow> char" where
  "toupper c = (let n = (of_char c :: nat) in if 97 \<le> n \<and> n \<le> 122 then char_of (n - 32) else c)"

fun load_items :: "heap \<Rightarrow> addr list \<Rightarrow> error + CartItem list" where
  "load_items h [] = Inr []"
| "load_items h (a # as) =
     (case deref h a of
        None \<Rightarrow> Inl DanglingPointer
      | Some it \<Rightarrow> (case load_items h as of Inl e \<Rightarrow> Inl e | Inr its \<Rightarrow> Inr (it # its)))"

definition displayCart :: "store \<Rightarrow> error + event list" where
  "displayCart s =
     (if getItemCount (cart s) = 0 then Inr [Print ''Your shopping cart is empty.\<newline>'']
      else case load_items (heap s) (getItems (cart s)) of
             Inl e \<Rightarrow> Inl e
           | Inr its \<Rightarrow> Inr [ShowCart its])"

section \<open>The program with the order array\<close>

text \<open>
  \<^verbatim>\<open>class Order\<close> of the variant that keeps its orders in memory. The constructor
  allocates a copy of every cart item (\<^verbatim>\<open>new CartItem(*cartItems[i])\<close>); the order
  holds the pointers to its copies.
\<close>

record Order =
  orderId :: cint
  paymentMethod :: string
  order_items :: "addr list"
  totalAmount :: double

fun copy_items :: "addr list \<Rightarrow> heap \<Rightarrow> error + addr list \<times> heap" where
  "copy_items [] h = Inr ([], h)"
| "copy_items (a # as) h =
     (case deref h a of
        None \<Rightarrow> Inl DanglingPointer
      | Some it \<Rightarrow>
          (let (b, h1) = new_CartItem it h
           in case copy_items as h1 of
                Inl e \<Rightarrow> Inl e
              | Inr (bs, h2) \<Rightarrow> Inr (b # bs, h2)))"

definition new_Order ::
  "cint \<Rightarrow> string \<Rightarrow> addr list \<Rightarrow> double \<Rightarrow> heap \<Rightarrow> error + Order \<times> heap" where
  "new_Order oid method cartItems tot h =
     (case copy_items cartItems h of
        Inl e \<Rightarrow> Inl e
      | Inr (bs, h') \<Rightarrow>
          Inr (\<lparr>orderId = oid, paymentMethod = method, order_items = bs, totalAmount = tot\<rparr>, h'))"

text \<open>
  The globals \<^verbatim>\<open>Order *orders[100]\<close> and \<^verbatim>\<open>orderCount\<close>, and the local
  \<^verbatim>\<open>nextOrderId\<close> of \<^verbatim>\<open>main\<close>. The list holds the \<^verbatim>\<open>orderCount\<close> slots in use.
\<close>

record mem_state =
  mem_store :: store
  orders :: "Order list"
  nextOrderId :: cint

definition orders_capacity :: nat where
  "orders_capacity = 100"

definition initial_mem :: mem_state where
  "initial_mem = \<lparr>mem_store = initial_store, orders = [], nextOrderId = 1\<rparr>"

text \<open>
  The checkout of this variant: the statements of \<^verbatim>\<open>main\<close> from the \<^verbatim>\<open>switch\<close> to
  \<^verbatim>\<open>clearCart\<close>. The result is the error thrown, if any, and the state reached. The
  store into \<^verbatim>\<open>orders[orderCount++]\<close> has no bounds check.
\<close>

definition checkout_mem :: "cint \<Rightarrow> mem_state \<Rightarrow> error option \<times> mem_state" where
  "checkout_mem paymentChoice st =
     (let strategy = select_strategy paymentChoice
      in case getTotalAmount (mem_store st) of
           Inl e \<Rightarrow> (Some e, st)
         | Inr tot \<Rightarrow>
            (case strategy of
               None \<Rightarrow> (Some NullPointerDereference, st)
             | Some m \<Rightarrow>
                (case new_Order (nextOrderId st) (getMethodName m)
                        (getItems (cart (mem_store st))) tot (heap (mem_store st)) of
                   Inl e \<Rightarrow> (Some e, st)
                 | Inr (ord, h) \<Rightarrow>
                    (let st1 = st\<lparr>mem_store := (mem_store st)\<lparr>heap := h\<rparr>,
                                   nextOrderId := nextOrderId st + 1\<rparr>
                     in if length (orders st) < orders_capacity
                        then (let st2 = st1\<lparr>orders := orders st @ [ord]\<rparr>
                              in case clearCart (mem_store st2) of
                                   Inl e \<Rightarrow> (Some e, st2)
                                 | Inr s \<Rightarrow> (None, st2\<lparr>mem_store := s\<rparr>))
                        else (Some ArrayIndexOutOfBounds, st1)))))"

definition order_lines :: "mem_state \<Rightarrow> Order \<Rightarrow> CartItem list" where
  "order_lines st ord = List.map_filter (deref (heap (mem_store st))) (order_items ord)"

fun display_orders :: "heap \<Rightarrow> Order list \<Rightarrow> error + shown_order list" where
  "display_orders h [] = Inr []"
| "display_orders h (ord # ords) =
     (case load_items h (order_items ord) of
        Inl e \<Rightarrow> Inl e
      | Inr its \<Rightarrow>
          (case display_orders h ords of
             Inl e \<Rightarrow> Inl e
           | Inr shown \<Rightarrow>
               Inr (\<lparr>shown_id = orderId ord, shown_method = paymentMethod ord,
                     shown_items = its, shown_total = totalAmount ord\<rparr> # shown)))"

definition viewOrders_mem :: "mem_state \<Rightarrow> error + shown_order list" where
  "viewOrders_mem st =
     (if length (orders st) = 0 then Inl NoOrdersException
      else display_orders (heap (mem_store st)) (orders st))"

text \<open>
  The branches \<^verbatim>\<open>choice == 2\<close> and \<^verbatim>\<open>choice == 3\<close> of the menu loop of this variant,
  with the handler \<^verbatim>\<open>catch (const exception &e)\<close> that closes the pass. The inputs are
  the character read for the checkout question and the number read for the payment
  method; \<open>None\<close> is input that \<^verbatim>\<open>getValidatedInput\<close> rejects.
\<close>

definition getValidatedInput :: "cint option \<Rightarrow> error + cint" where
  "getValidatedInput input = (case input of None \<Rightarrow> Inl InvalidInputException | Some v \<Rightarrow> Inr v)"

definition catch_all :: "error \<Rightarrow> event list \<times> control" where
  "catch_all e = (if is_exception e then ([Error (what e)], Continue) else ([], Crash e))"

definition main_choice2_mem ::
  "char \<Rightarrow> cint option \<Rightarrow> mem_state \<Rightarrow> mem_state \<times> event list \<times> control" where
  "main_choice2_mem checkoutChoice paymentInput st =
     (case displayCart (mem_store st) of
        Inl e \<Rightarrow> (st, catch_all e)
      | Inr shown \<Rightarrow>
          if isEmpty (mem_store st) then (st, shown, Continue)
          else if toupper checkoutChoice = CHR ''Y'' then
            (case getValidatedInput paymentInput of
               Inl e \<Rightarrow> (st, shown @ fst (catch_all e), snd (catch_all e))
             | Inr paymentChoice \<Rightarrow>
                (case checkout_mem paymentChoice st of
                   (Some e, st') \<Rightarrow> (st', shown @ fst (catch_all e), snd (catch_all e))
                 | (None, st') \<Rightarrow>
                     (st', shown @ [Print ''\<newline>You have successfully checked out the products!\<newline>''],
                      Continue)))
          else (st, shown, Continue))"

definition main_choice3_mem :: "mem_state \<Rightarrow> mem_state \<times> event list \<times> control" where
  "main_choice3_mem st =
     (case viewOrders_mem st of
        Inl e \<Rightarrow> (st, catch_all e)
      | Inr shown \<Rightarrow> (st, [ShowOrders shown], Continue))"

section \<open>Runs of the program with the order array\<close>

text \<open>
  A state is well formed when its store is, and every pointer an order holds is live and
  is not one of the cart's pointers.
\<close>

definition wf_mem :: "mem_state \<Rightarrow> bool" where
  "wf_mem st \<longleftrightarrow> wf_store (mem_store st) \<and>
     (\<forall>ord \<in> set (orders st). \<forall>a \<in> set (order_items ord).
        deref (heap (mem_store st)) a \<noteq> None \<and> a \<notin> set (getItems (cart (mem_store st))))"


text \<open>
  The operations a run is made of: the two mutators of the cart and the checkout. A run
  stops at the first operation that throws or leaves defined behaviour.
\<close>

datatype op = AddProduct Product cint | ClearCart | Checkout cint

fun step_op :: "op \<Rightarrow> mem_state \<Rightarrow> error + mem_state" where
  "step_op (AddProduct p q) st =
     (case addProduct p q (mem_store st) of Inl e \<Rightarrow> Inl e | Inr s \<Rightarrow> Inr (st\<lparr>mem_store := s\<rparr>))"
| "step_op ClearCart st =
     (case clearCart (mem_store st) of Inl e \<Rightarrow> Inl e | Inr s \<Rightarrow> Inr (st\<lparr>mem_store := s\<rparr>))"
| "step_op (Checkout pc) st =
     (case checkout_mem pc st of (Some e, st') \<Rightarrow> Inl e | (None, st') \<Rightarrow> Inr st')"

fun run_ops :: "op list \<Rightarrow> mem_state \<Rightarrow> error + mem_state" where
  "run_ops [] st = Inr st"
| "run_ops (x # xs) st = and_then (step_op x st) (run_ops xs)"

fun is_cart_op :: "op \<Rightarrow> bool" where
  "is_cart_op (Checkout pc) = False"
| "is_cart_op _ = True"


text \<open>
  The order ids of a state are consecutive when the stored orders carry the ids 1, 2, ...
  in order and \<^verbatim>\<open>nextOrderId\<close> is the next one.
\<close>

definition ids_ok :: "mem_state \<Rightarrow> bool" where
  "ids_ok st \<longleftrightarrow> length (orders st) \<le> orders_capacity \<and>
     nextOrderId st = of_nat (Suc (length (orders st))) \<and>
     map orderId (orders st) = map of_nat [1..<Suc (length (orders st))]"


text \<open>States and operations for the examples.\<close>

definition mem_two_headphones :: mem_state where
  "mem_two_headphones =
     \<lparr>mem_store = \<lparr>heap = [Some \<lparr>getProduct = headphones, getQuantity = 2\<rparr>],
                    cart = \<lparr>getItems = [0], capacity = 10\<rparr>\<rparr>,
      orders = [], nextOrderId = 1\<rparr>"

definition later_ops :: "op list" where
  "later_ops = [AddProduct laptop 1, ClearCart, AddProduct headphones 5]"


definition mem_one_headphones :: mem_state where
  "mem_one_headphones =
     \<lparr>mem_store = \<lparr>heap = [Some \<lparr>getProduct = headphones, getQuantity = 1\<rparr>],
                    cart = \<lparr>getItems = [0], capacity = 10\<rparr>\<rparr>,
      orders = [], nextOrderId = 1\<rparr>"

section \<open>Numbers as text\<close>

text \<open>
  \<^verbatim>\<open>std::to_string\<close> of an integer is its decimal numeral. \<^verbatim>\<open>std::to_string\<close> of a
  double formats with \<^verbatim>\<open>%f\<close>: six digits after the point, correctly rounded. A stream
  with its default flags formats a double with \<^verbatim>\<open>%g\<close> and precision 6: six significant
  digits, trailing zeros removed, exponent notation when the decimal exponent is below
  -4 or at least 6.
\<close>

function digits_of :: "int \<Rightarrow> string" where
  "digits_of n =
     (if n < 10 then [''0123456789'' ! nat n]
      else digits_of (n div 10) @ [''0123456789'' ! nat (n mod 10)])"
  by pat_completeness auto
termination
  by (relation "measure nat") auto

declare digits_of.simps [simp del]

definition to_string_int :: "int \<Rightarrow> string" where
  "to_string_int n = (if n < 0 then CHR ''-'' # digits_of (- n) else digits_of n)"

definition pad_left :: "nat \<Rightarrow> string \<Rightarrow> string" where
  "pad_left w ds = replicate (w - length ds) CHR ''0'' @ ds"

definition to_string_double :: "double \<Rightarrow> string" where
  "to_string_double x =
     (let m = round_half_even (\<bar>x\<bar> * 1000000)
      in (if x < 0 then ''-'' else '''') @ digits_of (m div 1000000) @ ''.'' @
         pad_left 6 (digits_of (m mod 1000000)))"

definition pow10 :: "int \<Rightarrow> rat" where
  "pow10 e = (if 0 \<le> e then 10 ^ nat e else 1 / 10 ^ nat (- e))"

definition ilog10 :: "rat \<Rightarrow> int" where
  \<comment> \<open>the floor of the decimal logarithm of a positive rational\<close>
  "ilog10 x = (if 1 \<le> x then int (length (digits_of \<lfloor>x\<rfloor>)) - 1
               else - int (length (digits_of (\<lceil>1 / x\<rceil> - 1))))"

definition strip_zeros :: "string \<Rightarrow> string" where
  "strip_zeros ds = rev (dropWhile (\<lambda>c. c = CHR ''0'') (rev ds))"

definition with_fraction :: "string \<Rightarrow> string \<Rightarrow> string" where
  "with_fraction ip fp = (let f = strip_zeros fp in if f = [] then ip else ip @ ''.'' @ f)"

definition stream_double :: "double \<Rightarrow> string" where
  "stream_double x =
     (if x = 0 then ''0''
      else
        let e0 = ilog10 \<bar>x\<bar>;
            m0 = round_half_even (\<bar>x\<bar> / pow10 (e0 - 5));
            m = (if m0 = 1000000 then 100000 else m0);
            X = (if m0 = 1000000 then e0 + 1 else e0);
            sign = (if x < 0 then ''-'' else '''')
        in if - 4 \<le> X \<and> X < 6
           then let w = nat (5 - X)
                in sign @ with_fraction (digits_of (m div 10 ^ w))
                            (pad_left w (digits_of (m mod 10 ^ w)))
           else sign @ with_fraction (digits_of (m div 100000))
                         (pad_left 5 (digits_of (m mod 100000))) @
                ''e'' @ (if X < 0 then ''-'' else ''+'') @ pad_left 2 (digits_of \<bar>X\<bar>))"

section \<open>The program with the log file\<close>

text \<open>
  The state of the variant that appends its orders to \<^verbatim>\<open>orders.log\<close>: the store and the
  content of the file, \<open>None\<close> when the file does not exist.
\<close>

record file_state =
  file_store :: store
  orders_log :: "string option"

definition initial_file :: file_state where
  "initial_file = \<lparr>file_store = initial_store, orders_log = None\<rparr>"

definition tab :: char where
  "tab = CHR 0x09"

definition item_line :: "CartItem \<Rightarrow> string" where
  "item_line it =
     to_string_int (sint (getId (getProduct it))) @ [tab] @ getName (getProduct it) @ [tab] @
     to_string_double (getPrice (getProduct it)) @ [tab] @
     to_string_int (sint (getQuantity it)) @ ''\<newline>''"

fun cart_contents :: "heap \<Rightarrow> addr list \<Rightarrow> error + string" where
  "cart_contents h [] = Inr []"
| "cart_contents h (a # as) =
     (case deref h a of
        None \<Rightarrow> Inl DanglingPointer
      | Some it \<Rightarrow>
          (case cart_contents h as of Inl e \<Rightarrow> Inl e | Inr rest \<Rightarrow> Inr (item_line it @ rest)))"

definition getCartContents :: "store \<Rightarrow> error + string" where
  "getCartContents s =
     (if getItemCount (cart s) = 0 then Inr []
      else cart_contents (heap s) (getItems (cart s)))"

definition order_block :: "string \<Rightarrow> string \<Rightarrow> string \<Rightarrow> double \<Rightarrow> string" where
  "order_block oid method contents tot =
     ''[LOG] -> Order ID: '' @ oid @ '' has been successfully checked out and paid using '' @
     method @ ''.\<newline>'' @ contents @ ''Total Amount: $'' @ stream_double tot @ ''\<newline>\<newline>''"

text \<open>
  The checkout of this variant: the statements of \<^verbatim>\<open>main\<close> from the \<^verbatim>\<open>switch\<close> to
  \<^verbatim>\<open>clearCart\<close>. \<open>now\<close> is the value of \<^verbatim>\<open>time(nullptr)\<close> and \<open>can_open\<close> is the
  value of \<^verbatim>\<open>logFile.is_open()\<close>; a file opened for appending is created when it does
  not exist. The result is the error thrown, or the order id, the method name and the
  total that are printed, and the state reached.
\<close>

definition checkout_file ::
  "int \<Rightarrow> bool \<Rightarrow> cint \<Rightarrow> file_state \<Rightarrow> (error + string \<times> string \<times> double) \<times> file_state" where
  "checkout_file now can_open paymentChoice st =
     (let strategy = select_strategy paymentChoice
      in case getTotalAmount (file_store st) of
           Inl e \<Rightarrow> (Inl e, st)
         | Inr tot \<Rightarrow>
            (case strategy of
               None \<Rightarrow> (Inl NullPointerDereference, st)
             | Some m \<Rightarrow>
                (let oid = ''ORD'' @ to_string_int now;
                     written =
                       (if can_open
                        then (case getCartContents (file_store st) of
                                Inl e \<Rightarrow> Inl e
                              | Inr contents \<Rightarrow>
                                  Inr (st\<lparr>orders_log :=
                                    Some ((case orders_log st of None \<Rightarrow> [] | Some old \<Rightarrow> old) @
                                          order_block oid (getMethodName m) contents tot)\<rparr>))
                        else Inr st)
                 in case written of
                      Inl e \<Rightarrow> (Inl e, st)
                    | Inr st1 \<Rightarrow>
                       (case clearCart (file_store st1) of
                          Inl e \<Rightarrow> (Inl e, st1)
                        | Inr s \<Rightarrow> (Inr (oid, getMethodName m, tot), st1\<lparr>file_store := s\<rparr>)))))"

section \<open>Reading the log file\<close>

text \<open>
  \<^verbatim>\<open>size_t\<close> values are integers from 0 to \<open>2 ^ 64 - 1\<close>; sums and differences wrap
  around. \<^verbatim>\<open>string::find\<close> returns \<^verbatim>\<open>npos\<close>, the largest value, when there is no match.
  \<^verbatim>\<open>string::substr\<close> throws \<^verbatim>\<open>std::out_of_range\<close> when the position is beyond the end.
\<close>

definition npos :: int where
  "npos = 2 ^ 64 - 1"

definition size_t :: "int \<Rightarrow> int" where
  "size_t n = n mod 2 ^ 64"

fun find_at :: "string \<Rightarrow> string \<Rightarrow> int \<Rightarrow> int" where
  "find_at pat [] i = (if pat = [] then i else npos)"
| "find_at pat (c # s) i =
     (if take (length pat) (c # s) = pat then i else find_at pat s (i + 1))"

definition str_find :: "string \<Rightarrow> string \<Rightarrow> int \<Rightarrow> int" where
  "str_find s pat pos =
     (if int (length s) < pos then npos else find_at pat (drop (nat pos) s) pos)"

definition substr :: "string \<Rightarrow> int \<Rightarrow> int \<Rightarrow> error + string" where
  "substr s pos len =
     (if int (length s) < pos then Inl OutOfRange
      else Inr (take (nat (min len (int (length s) - pos))) (drop (nat pos) s)))"

text \<open>
  The lines successive calls of \<^verbatim>\<open>getline\<close> return until one fails: a call fails when
  it reaches the end of the file without having read a character.
\<close>

fun getlines :: "string \<Rightarrow> string \<Rightarrow> string list" where
  "getlines cur [] = (if cur = [] then [] else [cur])"
| "getlines cur (c # s) =
     (if c = CHR 0x0A then cur # getlines [] s else getlines (cur @ [c]) s)"

definition marker :: string where
  "marker = ''[LOG] -> Order ID: ''"

definition parse_header :: "string \<Rightarrow> error + string \<times> string" where
  "parse_header line =
     (let idStart = size_t (str_find line ''Order ID: '' 0 + 10);
          idEnd = str_find line '' has been'' 0
      in case substr line idStart (size_t (idEnd - idStart)) of
           Inl e \<Rightarrow> Inl e
         | Inr oid \<Rightarrow>
            (let methodStart = size_t (str_find line ''using '' 0 + 6);
                 methodEnd = str_find line ''.'' 0
             in case substr line methodStart (size_t (methodEnd - methodStart)) of
                  Inl e \<Rightarrow> Inl e
                | Inr method \<Rightarrow> Inr (oid, method)))"

definition parse_item :: "string \<Rightarrow> error + (string \<times> string \<times> string \<times> string) option" where
  "parse_item line =
     (let tab1 = str_find line [tab] 0;
          tab2 = str_find line [tab] (size_t (tab1 + 1));
          tab3 = str_find line [tab] (size_t (tab2 + 1))
      in if tab1 \<noteq> npos \<and> tab2 \<noteq> npos \<and> tab3 \<noteq> npos
         then (case substr line 0 tab1 of
                 Inl e \<Rightarrow> Inl e
               | Inr pid \<Rightarrow>
                  (case substr line (size_t (tab1 + 1)) (size_t (tab2 - tab1 - 1)) of
                     Inl e \<Rightarrow> Inl e
                   | Inr name \<Rightarrow>
                      (case substr line (size_t (tab2 + 1)) (size_t (tab3 - tab2 - 1)) of
                         Inl e \<Rightarrow> Inl e
                       | Inr price \<Rightarrow>
                          (case substr line (size_t (tab3 + 1)) npos of
                             Inl e \<Rightarrow> Inl e
                           | Inr qty \<Rightarrow> Inr (Some (pid, name, price, qty))))))
         else Inr None)"

fun parse_items :: "string list \<Rightarrow> error + (string \<times> string \<times> string \<times> string) list" where
  "parse_items [] = Inr []"
| "parse_items (line # rest) =
     (case parse_item line of
        Inl e \<Rightarrow> Inl e
      | Inr r \<Rightarrow>
          (case parse_items rest of
             Inl e \<Rightarrow> Inl e
           | Inr its \<Rightarrow> Inr ((case r of None \<Rightarrow> [] | Some it \<Rightarrow> [it]) @ its)))"

definition read_total :: "string list \<Rightarrow> string option" where
  "read_total ls =
     (case ls of
        [] \<Rightarrow> None
      | line # rest \<Rightarrow> if str_find line ''Total Amount: $'' 0 \<noteq> npos then Some line else None)"

text \<open>
  The outer loop of \<^verbatim>\<open>viewOrders\<close> over the lines of the file. At a line with the
  marker it extracts the order id and the method, reads item lines up to and including
  the next empty line (or to the end of the file), then reads one more line and takes it
  for the total when it holds \<^verbatim>\<open>Total Amount: $\<close>, and goes on after that line.
\<close>

function scan_orders :: "string list \<Rightarrow> error + parsed_order list" where
  "scan_orders [] = Inr []"
| "scan_orders (line # rest) =
     (if str_find line marker 0 \<noteq> npos
      then (case parse_header line of
              Inl e \<Rightarrow> Inl e
            | Inr (oid, method) \<Rightarrow>
               (case parse_items (takeWhile (\<lambda>l. l \<noteq> []) rest) of
                  Inl e \<Rightarrow> Inl e
                | Inr its \<Rightarrow>
                   (case scan_orders (drop 1 (drop 1 (dropWhile (\<lambda>l. l \<noteq> []) rest))) of
                      Inl e \<Rightarrow> Inl e
                    | Inr found \<Rightarrow>
                       Inr (\<lparr>parsed_id = oid, parsed_method = method, parsed_items = its,
                             parsed_total = read_total (drop 1 (dropWhile (\<lambda>l. l \<noteq> []) rest))\<rparr>
                            # found))))
      else scan_orders rest)"
  by pat_completeness auto
termination
  by (relation "measure length")
     (auto simp: less_Suc_eq_le intro: le_trans [OF diff_le_self length_dropWhile_le])

definition viewOrders_file :: "string option \<Rightarrow> error + parsed_order list" where
  "viewOrders_file logFile =
     (case logFile of
        None \<Rightarrow> Inl NoOrdersException
      | Some content \<Rightarrow>
          (case scan_orders (getlines [] content) of
             Inl e \<Rightarrow> Inl e
           | Inr found \<Rightarrow> if found = [] then Inl NoOrdersException else Inr found))"

text \<open>
  The branches \<^verbatim>\<open>choice == 2\<close> and \<^verbatim>\<open>choice == 3\<close> of the menu loop of this variant.
  Each input has its own handler for the exceptions of the program; what is left goes to
  the handler that closes the pass.
\<close>

definition main_choice2_file ::
  "char \<Rightarrow> cint option \<Rightarrow> int \<Rightarrow> bool \<Rightarrow> file_state \<Rightarrow> file_state \<times> event list \<times> control" where
  "main_choice2_file checkoutChoice paymentInput now can_open st =
     (case displayCart (file_store st) of
        Inl e \<Rightarrow> (st, catch_all e)
      | Inr shown \<Rightarrow>
          if isEmpty (file_store st) then (st, shown, Continue)
          else if toupper checkoutChoice \<noteq> CHR ''Y'' \<and> toupper checkoutChoice \<noteq> CHR ''N''
          then (st, shown @ [Error ''Please enter Y or N.''], Continue)
          else if toupper checkoutChoice = CHR ''Y'' then
            (case getValidatedInput paymentInput of
               Inl e \<Rightarrow> (st, shown @ [Error (what e)], Continue)
             | Inr paymentChoice \<Rightarrow>
                if sint paymentChoice < 1 \<or> 3 < sint paymentChoice
                then (st, shown @ [Error ''Invalid payment method. Please select 1-3.''], Continue)
                else
                  (case checkout_file now can_open paymentChoice st of
                     (Inl e, st') \<Rightarrow> (st', shown @ fst (catch_all e), snd (catch_all e))
                   | (Inr (oid, method, tot), st') \<Rightarrow>
                       (st',
                        shown @ [Print ''\<newline>You have successfully checked out the products!\<newline>'',
                                 Receipt oid method tot],
                        Continue)))
          else (st, shown, Continue))"

definition main_choice3_file :: "file_state \<Rightarrow> file_state \<times> event list \<times> control" where
  "main_choice3_file st =
     (case viewOrders_file (orders_log st) of
        Inl e \<Rightarrow> (st, catch_all e)
      | Inr found \<Rightarrow> (st, [ShowLog found], Continue))"

section \<open>Runs of the program with the log file\<close>

text \<open>
  The operations of a run of this variant: adding a product, and a checkout at a given
  time, with the log file opening or not, and with a payment choice. After a run the
  menu can show the orders: \<open>view_after\<close> is what \<^verbatim>\<open>viewOrders\<close> extracts from the log
  the run has written, \<open>log_after\<close> the lines of that log.
\<close>

datatype file_op = FileAdd Product cint | FileCheckout int bool cint

fun step_file :: "file_op \<Rightarrow> file_state \<Rightarrow> error + file_state" where
  "step_file (FileAdd p q) st =
     (case addProduct p q (file_store st) of Inl e \<Rightarrow> Inl e | Inr s \<Rightarrow> Inr (st\<lparr>file_store := s\<rparr>))"
| "step_file (FileCheckout now can_open pc) st =
     (case checkout_file now can_open pc st of (Inl e, st') \<Rightarrow> Inl e | (Inr r, st') \<Rightarrow> Inr st')"

fun run_file :: "file_op list \<Rightarrow> file_state \<Rightarrow> error + file_state" where
  "run_file [] st = Inr st"
| "run_file (x # xs) st = and_then (step_file x st) (run_file xs)"

definition view_after :: "file_op list \<Rightarrow> error + parsed_order list" where
  "view_after ops = and_then (run_file ops initial_file) (\<lambda>st. viewOrders_file (orders_log st))"

definition log_after :: "file_op list \<Rightarrow> error + string list" where
  "log_after ops =
     and_then (run_file ops initial_file)
       (\<lambda>st. Inr (case orders_log st of None \<Rightarrow> [] | Some content \<Rightarrow> getlines [] content))"

text \<open>
  The header lines of a log are its lines that hold the marker, the test by which
  \<^verbatim>\<open>viewOrders\<close> recognises the first line of an order block. A log is closed when it
  is absent, empty, or ends with a newline, as every log is that only this program has
  written. The names of a cart are plain when none of them holds an opening square
  bracket, the character the marker begins with; the names of the catalog are plain.
\<close>

definition header_lines :: "string option \<Rightarrow> string list" where
  "header_lines logFile =
     (case logFile of
        None \<Rightarrow> []
      | Some content \<Rightarrow> filter (\<lambda>line. str_find line marker 0 \<noteq> npos) (getlines [] content))"

definition log_closed :: "string option \<Rightarrow> bool" where
  "log_closed logFile =
     (case logFile of None \<Rightarrow> True | Some content \<Rightarrow> content = [] \<or> last content = CHR 0x0A)"

definition plain_names :: "store \<Rightarrow> bool" where
  "plain_names s = list_all (\<lambda>it. CHR ''['' \<notin> set (getName (getProduct it))) (cart_lines s)"

text \<open>
  An operation of the catalog adds one of the five products of the catalog, as the menu
  does, or is a checkout.
\<close>

fun catalog_op :: "file_op \<Rightarrow> bool" where
  "catalog_op (FileAdd p q) = (p \<in> set products)"
| "catalog_op (FileCheckout now can_open pc) = True"

definition total_after :: "file_op list \<Rightarrow> error + double" where
  \<comment> \<open>what \<^verbatim>\<open>getTotalAmount\<close> returns after a run\<close>
  "total_after ops = and_then (run_file ops initial_file) (\<lambda>st. getTotalAmount (file_store st))"



text \<open>
  States for the examples: a cart of two headphones and a cart of one laptop with no log
  file yet, and the state of the other variant after one hundred checkouts of one
  headphones each and with one more headphones in the cart.
\<close>

definition file_two_headphones :: file_state where
  "file_two_headphones =
     \<lparr>file_store = \<lparr>heap = [Some \<lparr>getProduct = headphones, getQuantity = 2\<rparr>],
                     cart = \<lparr>getItems = [0], capacity = 10\<rparr>\<rparr>,
      orders_log = None\<rparr>"

definition file_one_laptop :: file_state where
  "file_one_laptop =
     \<lparr>file_store = \<lparr>heap = [Some \<lparr>getProduct = laptop, getQuantity = 1\<rparr>],
                     cart = \<lparr>getItems = [0], capacity = 10\<rparr>\<rparr>,
      orders_log = None\<rparr>"


definition mem_full :: mem_state where
  "mem_full =
     \<lparr>mem_store =
        \<lparr>heap = replicate 101 (Some \<lparr>getProduct = headphones, getQuantity = 1\<rparr>),
         cart = \<lparr>getItems = [0], capacity = 10\<rparr>\<rparr>,
      orders = map (\<lambda>k. \<lparr>orderId = of_nat k, paymentMethod = ''Cash'', order_items = [k],
                           totalAmount = getPrice headphones\<rparr>) [1..<101],
      nextOrderId = 101\<rparr>"

definition headphones_twice_checkout :: "file_op list" where
  "headphones_twice_checkout =
     [FileAdd headphones 1, FileAdd headphones 1, FileCheckout 1700000000 True 1]"

definition two_checkouts :: "file_op list" where
  "two_checkouts =
     [FileAdd headphones 1, FileAdd headphones 1, FileCheckout 1700000000 True 1,
      FileAdd laptop 1, FileCheckout 1700000060 True 2]"

text \<open>
  The state the program with the log file reaches by adding headphones twice, checking
  out with cash and adding a laptop: the log holds the first order block, the cart the
  laptop. And the run that adds a laptop ten times and a mouse once.
\<close>

definition file_second_laptop :: file_state where
  "file_second_laptop =
     \<lparr>file_store = \<lparr>heap = [Some \<lparr>getProduct = laptop, getQuantity = 1\<rparr>],
                     cart = \<lparr>getItems = [0], capacity = 10\<rparr>\<rparr>,
      orders_log = Some (
        ''[LOG] -> Order ID: ORD1700000000 has been successfully checked out and paid using Cash.\<newline>'' @
        ''3'' @ [CHR 0x09] @ ''Headphones'' @ [CHR 0x09] @ ''99.990000'' @ [CHR 0x09] @ ''2\<newline>'' @
        ''Total Amount: $199.98\<newline>\<newline>'')\<rparr>"

definition mouse :: Product where
  "mouse = products ! 3"

definition ten_laptops_mouse :: "file_op list" where
  "ten_laptops_mouse = replicate 10 (FileAdd laptop 1) @ [FileAdd mouse 1]"


text \<open>
  The state after \<open>n\<close> checkouts of one headphones each, for \<open>n\<close> from 1: the cell of
  the cart item is free again and every order holds one cell of its own.
\<close>

definition one_headphones :: CartItem where
  "one_headphones = \<lparr>getProduct = headphones, getQuantity = 1\<rparr>"

definition mem_after :: "nat \<Rightarrow> mem_state" where
  "mem_after n =
     \<lparr>mem_store = \<lparr>heap = None # replicate n (Some one_headphones),
                    cart = \<lparr>getItems = [], capacity = 10\<rparr>\<rparr>,
      orders = map (\<lambda>k. \<lparr>orderId = of_nat k, paymentMethod = ''Cash'', order_items = [k],
                           totalAmount = getPrice headphones\<rparr>) [1..<Suc n],
      nextOrderId = of_nat (Suc n)\<rparr>"

section \<open>Properties of the heap and the cart\<close>

lemma first_free_le: "first_free h \<le> length h"
  by (induction h rule: first_free.induct) auto

lemma first_free_None: "deref h (first_free h) = None"
  by (induction h rule: first_free.induct) (auto simp: deref_def)

lemma deref_update:
  "deref (h[a := x]) b = (if b = a \<and> a < length h then x else deref h b)"
  by (auto simp: deref_def)

lemma deref_append:
  "deref (h @ [x]) b = (if b = length h then x else deref h b)"
  by (auto simp: deref_def nth_append)

lemma new_CartItem_props:
  assumes "new_CartItem v h = (a, h')"
  shows "deref h a = None" and "deref h' a = Some v"
    and "b \<noteq> a \<Longrightarrow> deref h' b = deref h b"
  using assms first_free_le [of h] first_free_None [of h]
  by (auto simp: new_CartItem_def Let_def deref_update deref_append split: if_splits)

lemma map_filter_alloc:
  "(\<forall>a \<in> set xs. deref h a \<noteq> None) \<Longrightarrow> List.map_filter (deref h) xs = map (\<lambda>a. the (deref h a)) xs"
  by (induction xs) (auto simp: List.map_filter_simps)

lemma find_line_result:
  assumes "\<forall>a \<in> set xs. deref h a \<noteq> None"
  shows "(find_line h xs pid = Inr None \<and> pid \<notin> set (map line_id (List.map_filter (deref h) xs))) \<or>
         (\<exists>a it. find_line h xs pid = Inr (Some a) \<and> a \<in> set xs \<and> deref h a = Some it \<and> line_id it = pid)"
  using assms
proof (induction xs)
  case Nil
  then show ?case by (simp add: List.map_filter_simps)
next
  case (Cons x xs)
  from Cons.prems obtain it where it: "deref h x = Some it" by auto
  show ?case
  proof (cases "line_id it = pid")
    case True
    with it show ?thesis by (auto simp: line_id_def)
  next
    case False
    from Cons.prems have "\<forall>a \<in> set xs. deref h a \<noteq> None" by simp
    from Cons.IH [OF this] False it show ?thesis
      by (auto simp: List.map_filter_simps line_id_def)
  qed
qed

lemma add_line_absent:
  "getId p \<notin> set (map line_id ls) \<Longrightarrow> add_line p q ls = ls @ [\<lparr>getProduct = p, getQuantity = q\<rparr>]"
  by (induction ls) auto

lemma add_line_present:
  "distinct (map line_id ls) \<Longrightarrow> getId p \<in> set (map line_id ls) \<Longrightarrow>
   add_line p q ls = map (\<lambda>it. if line_id it = getId p then setQuantity (getQuantity it + q) it else it) ls"
proof (induction ls)
  case Nil
  then show ?case by simp
next
  case (Cons it ls)
  show ?case
  proof (cases "line_id it = getId p")
    case True
    with Cons.prems have "\<forall>x \<in> set ls. line_id x \<noteq> getId p" by force
    then have "map (\<lambda>it. if line_id it = getId p then setQuantity (getQuantity it + q) it else it) ls = ls"
      by (induction ls) auto
    with True show ?thesis by simp
  next
    case False
    with Cons show ?thesis by auto
  qed
qed

lemma line_id_setQuantity [simp]: "line_id (setQuantity n it) = line_id it"
  by (simp add: line_id_def setQuantity_def)

lemma cart_lines_alloc:
  "\<forall>a \<in> set (getItems (cart s)). deref (heap s) a \<noteq> None \<Longrightarrow>
   cart_lines s = map (\<lambda>a. the (deref (heap s) a)) (getItems (cart s))"
  by (simp add: cart_lines_def map_filter_alloc)

lemma addProduct_refines:
  assumes wf: "wf_store s"
  shows "\<exists>s'. addProduct p q s = Inr s' \<and> wf_store s' \<and> cart_lines s' = add_line p q (cart_lines s)"
proof -
  let ?h = "heap s" and ?xs = "getItems (cart s)"
  from wf have alloc: "\<forall>a \<in> set ?xs. deref ?h a \<noteq> None"
    and dist: "distinct ?xs" and ids: "distinct (map line_id (cart_lines s))"
    and cap: "getItemCount (cart s) \<le> capacity (cart s)" "0 < capacity (cart s)"
    by (auto simp: wf_store_def)
  note lines = cart_lines_alloc [OF alloc]
  from find_line_result [OF alloc, of "getId p"] show ?thesis
  proof (elim disjE conjE exE)
    assume none: "find_line ?h ?xs (getId p) = Inr None"
      and absent: "getId p \<notin> set (map line_id (List.map_filter (deref ?h) ?xs))"
    obtain a h' where new: "new_CartItem \<lparr>getProduct = p, getQuantity = q\<rparr> ?h = (a, h')"
      by (cases "new_CartItem \<lparr>getProduct = p, getQuantity = q\<rparr> ?h")
    note np = new_CartItem_props [OF new]
    let ?cap = "if getItemCount (cart s) = capacity (cart s) then capacity (cart s) * 2 else capacity (cart s)"
    let ?s' = "s\<lparr>heap := h', cart := \<lparr>getItems = ?xs @ [a], capacity = ?cap\<rparr>\<rparr>"
    from cap have lt: "getItemCount (cart s) < ?cap" by auto
    from none new lt have res: "addProduct p q s = Inr ?s'"
      by (simp add: addProduct_def Let_def)
    from np(1) alloc have fresh: "a \<notin> set ?xs" by auto
    then have same: "\<forall>b \<in> set ?xs. deref h' b = deref ?h b"
      by (metis np(3))
    have lines': "cart_lines ?s' = cart_lines s @ [\<lparr>getProduct = p, getQuantity = q\<rparr>]"
      using same np(2) by (simp add: cart_lines_def List.map_filter_def o_def cong: map_cong filter_cong)
    have "wf_store ?s'"
      using dist fresh alloc same np(2) ids absent lt lines'
      by (auto simp: wf_store_def getItemCount_def cart_lines_def line_id_def)
    moreover have "cart_lines ?s' = add_line p q (cart_lines s)"
      using lines' absent by (simp add: add_line_absent cart_lines_def)
    ultimately show ?thesis using res by blast
  next
    fix a it
    assume found: "find_line ?h ?xs (getId p) = Inr (Some a)" and a: "a \<in> set ?xs"
      and it: "deref ?h a = Some it" and id: "line_id it = getId p"
    let ?it' = "setQuantity (getQuantity it + q) it"
    let ?s' = "s\<lparr>heap := ?h[a := Some ?it']\<rparr>"
    from found it have res: "addProduct p q s = Inr ?s'"
      by (simp add: addProduct_def)
    from it have lt: "a < length ?h" by (auto simp: deref_def split: if_splits)
    have alloc': "\<forall>b \<in> set (getItems (cart ?s')). deref (heap ?s') b \<noteq> None"
      using alloc by (auto simp: deref_update)
    have present: "getId p \<in> set (map line_id (cart_lines s))"
      using a it id by (force simp: lines)
    have uniq: "\<forall>b \<in> set ?xs. b \<noteq> a \<longrightarrow> line_id (the (deref ?h b)) \<noteq> getId p"
    proof (intro ballI impI)
      fix b assume b: "b \<in> set ?xs" "b \<noteq> a"
      from ids have "inj_on (\<lambda>a. line_id (the (deref ?h a))) (set ?xs)"
        by (simp add: lines distinct_map o_def)
      with a b have "line_id (the (deref ?h b)) \<noteq> line_id (the (deref ?h a))"
        by (auto dest: inj_onD)
      with it id show "line_id (the (deref ?h b)) \<noteq> getId p" by simp
    qed
    have lines': "cart_lines ?s' = add_line p q (cart_lines s)"
      unfolding add_line_present [OF ids present] cart_lines_alloc [OF alloc']
      using uniq it id lt by (auto simp: lines deref_update)
    have "map line_id (cart_lines ?s') = map line_id (cart_lines s)"
      unfolding lines' add_line_present [OF ids present] by (simp add: o_def cong: map_cong)
    then have "wf_store ?s'"
      using wf alloc' by (simp add: wf_store_def getItemCount_def)
    with res lines' show ?thesis by blast
  qed
qed


lemma filter_add_line:
  assumes "distinct (map line_id ls)"
  shows "filter (\<lambda>it. line_id it = getId p) (add_line p q ls) =
     (case filter (\<lambda>it. line_id it = getId p) ls of
        [] \<Rightarrow> [\<lparr>getProduct = p, getQuantity = q\<rparr>]
      | it # _ \<Rightarrow> [setQuantity (getQuantity it + q) it])"
  using assms
proof (induction ls)
  case Nil
  then show ?case by (simp add: line_id_def)
next
  case (Cons it ls)
  show ?case
  proof (cases "line_id it = getId p")
    case True
    with Cons.prems have "filter (\<lambda>it. line_id it = getId p) ls = []"
      by (force simp: filter_empty_conv)
    with True show ?thesis by simp
  next
    case False
    with Cons show ?thesis by simp
  qed
qed

lemma length_add_line:
  "length (add_line p q ls) =
     (if filter (\<lambda>it. line_id it = getId p) ls = [] then Suc (length ls) else length ls)"
  by (induction ls) auto

lemma add_line_last:
  "getId p \<notin> set (map line_id ls) \<Longrightarrow> line_id x = getId p \<Longrightarrow>
   add_line p q (ls @ [x]) = ls @ [setQuantity (getQuantity x + q) x]"
  by (induction ls) auto

section \<open>Adding a product twice\<close>

text \<open>
  Claim C3, as amended. In every well-formed store, two calls of \<^verbatim>\<open>addProduct\<close> with
  the same product id and the quantities \<open>q1\<close> and \<open>q2\<close> both return, and leave exactly
  one line for that id. When the cart had no line for the id, the first call appends the
  line and the quantity ends as \<open>q1 + q2\<close>; when it had one with quantity \<open>q0\<close>, no
  line is appended and the quantity ends as \<open>q0 + q1 + q2\<close>. The second call never
  appends. Quantities are 32-bit and the sums wrap around.
\<close>

theorem addProduct_twice:
  assumes "wf_store s" and "getId p' = getId p"
  shows "\<exists>s1 s2. addProduct p q1 s = Inr s1 \<and> addProduct p' q2 s1 = Inr s2 \<and>
     length (lines_for (getId p) s2) = 1 \<and>
     (case lines_for (getId p) s of
        [] \<Rightarrow> cart_lines s1 = cart_lines s @ [\<lparr>getProduct = p, getQuantity = q1\<rparr>] \<and>
              cart_lines s2 = cart_lines s @ [\<lparr>getProduct = p, getQuantity = q1 + q2\<rparr>] \<and>
              lines_for (getId p) s2 = [\<lparr>getProduct = p, getQuantity = q1 + q2\<rparr>]
      | it # _ \<Rightarrow> length (cart_lines s1) = length (cart_lines s) \<and>
              lines_for (getId p) s2 = [setQuantity (getQuantity it + q1 + q2) it]) \<and>
     length (cart_lines s2) = length (cart_lines s1)"
proof -
  from addProduct_refines [OF assms(1), of p q1] obtain s1 where
    s1: "addProduct p q1 s = Inr s1" "wf_store s1" "cart_lines s1 = add_line p q1 (cart_lines s)"
    by blast
  from addProduct_refines [OF s1(2), of p' q2] obtain s2 where
    s2: "addProduct p' q2 s1 = Inr s2" "wf_store s2" "cart_lines s2 = add_line p' q2 (cart_lines s1)"
    by blast
  from assms(1) have d: "distinct (map line_id (cart_lines s))" by (simp add: wf_store_def)
  from s1(2) have d1: "distinct (map line_id (cart_lines s1))" by (simp add: wf_store_def)
  note f1 = filter_add_line [OF d, of p q1, folded s1(3)]
  note f2 = filter_add_line [OF d1, of p' q2, folded s2(3), unfolded assms(2)]
  show ?thesis
  proof (cases "lines_for (getId p) s")
    case Nil
    then have absent: "getId p \<notin> set (map line_id (cart_lines s))"
      by (auto simp: lines_for_def filter_empty_conv)
    then have l1: "cart_lines s1 = cart_lines s @ [\<lparr>getProduct = p, getQuantity = q1\<rparr>]"
      by (simp add: s1(3) add_line_absent)
    have "cart_lines s2 = cart_lines s @ [\<lparr>getProduct = p, getQuantity = q1 + q2\<rparr>]"
      using absent unfolding s2(3) l1
      by (simp add: add_line_last assms(2) line_id_def setQuantity_def)
    with Nil l1 s1(1) s2(1) absent show ?thesis
      by (auto simp: lines_for_def line_id_def filter_empty_conv)
  next
    case (Cons it its)
    with f1 have l1: "lines_for (getId p) s1 = [setQuantity (getQuantity it + q1) it]"
      by (simp add: lines_for_def)
    with f2 have l2: "lines_for (getId p) s2 = [setQuantity (getQuantity it + q1 + q2) it]"
      by (simp add: lines_for_def setQuantity_def)
    have "length (cart_lines s1) = length (cart_lines s)"
      using Cons by (simp add: s1(3) length_add_line lines_for_def)
    moreover have "length (cart_lines s2) = length (cart_lines s1)"
      using l1 by (simp add: s2(3) length_add_line lines_for_def assms(2))
    ultimately show ?thesis using Cons l2 s1(1) s2(1) by simp
  qed
qed

theorem addProduct_twice_witness:
  "wf_store initial_store \<and> getId headphones = getId headphones \<and>
   (\<exists>s1 s2. addProduct headphones 1 initial_store = Inr s1 \<and>
      addProduct headphones 1 s1 = Inr s2 \<and>
      cart_lines s2 = [\<lparr>getProduct = headphones, getQuantity = 1 + 1\<rparr>]) \<and>
   wf_store cart_of_five \<and>
   (\<exists>s1 s2. addProduct headphones 1 cart_of_five = Inr s1 \<and>
      addProduct headphones 1 s1 = Inr s2 \<and> length (cart_lines s2) = 1 \<and>
      lines_for (getId headphones) s2 = [\<lparr>getProduct = headphones, getQuantity = 5 + 1 + 1\<rparr>])"
proof -
  have wf: "wf_store initial_store" and wf5: "wf_store cart_of_five" by code_simp+
  have e: "lines_for (getId headphones) initial_store = []" "cart_lines initial_store = []"
    by code_simp+
  have f: "lines_for (getId headphones) cart_of_five =
      [\<lparr>getProduct = headphones, getQuantity = 5\<rparr>]"
    "length (cart_lines cart_of_five) = 1"
    by code_simp+
  from addProduct_twice [OF wf refl, of headphones 1 1]
  have a: "\<exists>s1 s2. addProduct headphones 1 initial_store = Inr s1 \<and>
      addProduct headphones 1 s1 = Inr s2 \<and>
      cart_lines s2 = [\<lparr>getProduct = headphones, getQuantity = 1 + 1\<rparr>]"
    by (auto simp: e)
  from addProduct_twice [OF wf5 refl, of headphones 1 1]
  have b: "\<exists>s1 s2. addProduct headphones 1 cart_of_five = Inr s1 \<and>
      addProduct headphones 1 s1 = Inr s2 \<and> length (cart_lines s2) = 1 \<and>
      lines_for (getId headphones) s2 = [\<lparr>getProduct = headphones, getQuantity = 5 + 1 + 1\<rparr>]"
    by (auto simp: f setQuantity_def)
  from wf wf5 a b show ?thesis by simp
qed

text \<open>
  Claim C3 as stated promises the quantity \<open>q1 + q2\<close> for every cart. In the cart that
  holds five headphones, adding headphones twice with quantity 1 leaves the quantity 7.
\<close>

theorem addProduct_twice_counterexample:
  "quantities_for 3 (and_then (addProduct headphones 1 cart_of_five) (addProduct headphones 1)) = Inr [7] \<and>
   quantities_for 3 (and_then (addProduct headphones 1 cart_of_five) (addProduct headphones 1)) \<noteq> Inr [1 + 1]"
  by code_simp

section \<open>The total amount of the cart\<close>

lemma sum_items_alloc:
  "\<forall>a \<in> set xs. deref h a \<noteq> None \<Longrightarrow>
   sum_items h xs acc = Inr (foldl (\<lambda>t it. dadd t (getTotalPrice it)) acc (List.map_filter (deref h) xs))"
  by (induction xs arbitrary: acc) (auto simp: List.map_filter_simps)

lemma getTotalAmount_lines:
  assumes "wf_store s"
  shows "getTotalAmount s =
     (if cart_lines s = [] then Inl EmptyCartException
      else Inr (foldl (\<lambda>t it. dadd t (getTotalPrice it)) 0 (cart_lines s)))"
proof -
  from assms have alloc: "\<forall>a \<in> set (getItems (cart s)). deref (heap s) a \<noteq> None"
    by (simp add: wf_store_def)
  then have "cart_lines s = [] \<longleftrightarrow> getItems (cart s) = []"
    by (simp add: cart_lines_alloc)
  then show ?thesis
    using sum_items_alloc [OF alloc, of 0]
    by (simp add: getTotalAmount_def getItemCount_def cart_lines_def)
qed

lemma foldl_exact:
  "rounds_nowhere acc ls \<Longrightarrow>
   foldl (\<lambda>t it. dadd t (getTotalPrice it)) acc ls = acc + exact_total ls"
proof (induction ls arbitrary: acc)
  case Nil
  then show ?case by (simp add: exact_total_def)
next
  case (Cons it ls)
  let ?t = "getPrice (getProduct it) * of_int (sint (getQuantity it))"
  from Cons.prems have r: "round_double ?t = ?t" "round_double (acc + ?t) = acc + ?t"
    and rest: "rounds_nowhere (acc + ?t) ls"
    by (simp_all add: Let_def)
  have step: "dadd acc (getTotalPrice it) = acc + ?t"
    using r by (simp add: dadd_def dmul_def getTotalPrice_def double_of_int_def)
  have "exact_total (it # ls) = ?t + exact_total ls"
    by (simp add: exact_total_def)
  with Cons.IH [OF rest] step show ?case by simp
qed

lemma exact_total_mset: "mset ls = mset ls' \<Longrightarrow> exact_total ls = exact_total ls'"
proof -
  assume m: "mset ls = mset ls'"
  let ?f = "\<lambda>it. getPrice (getProduct it) * of_int (sint (getQuantity it))"
  have "sum_list (map ?f ls) = sum_mset (image_mset ?f (mset ls))"
    by (simp only: sum_mset_sum_list [symmetric] mset_map)
  also have "\<dots> = sum_mset (image_mset ?f (mset ls'))" by (simp only: m)
  also have "\<dots> = sum_list (map ?f ls')"
    by (simp only: sum_mset_sum_list [symmetric] mset_map)
  finally show ?thesis by (simp only: exact_total_def)
qed

text \<open>
  Claim C2, as amended. In a well-formed store \<^verbatim>\<open>getTotalAmount\<close> throws
  \<^verbatim>\<open>EmptyCartException\<close> exactly when the cart has no line. On a cart with lines it
  returns the sum of price times quantity accumulated in line order from 0, every product
  and every partial sum rounded to a double. When no step rounds, this is the exact sum,
  and every other order of the same lines on which no step rounds gives the same value.
\<close>

theorem getTotalAmount_sum:
  assumes "wf_store s"
  shows "(getTotalAmount s = Inl EmptyCartException \<longleftrightarrow> cart_lines s = []) \<and>
    (cart_lines s \<noteq> [] \<longrightarrow>
       getTotalAmount s = Inr (foldl (\<lambda>t it. dadd t (getTotalPrice it)) 0 (cart_lines s))) \<and>
    (cart_lines s \<noteq> [] \<and> rounds_nowhere 0 (cart_lines s) \<longrightarrow>
       getTotalAmount s = Inr (exact_total (cart_lines s)) \<and>
       (\<forall>s'. wf_store s' \<and> mset (cart_lines s') = mset (cart_lines s) \<and>
             rounds_nowhere 0 (cart_lines s') \<longrightarrow> getTotalAmount s' = getTotalAmount s))"
proof -
  note t = getTotalAmount_lines [OF assms]
  have 1: "getTotalAmount s = Inl EmptyCartException \<longleftrightarrow> cart_lines s = []"
    by (simp add: t)
  have 2: "cart_lines s \<noteq> [] \<longrightarrow>
       getTotalAmount s = Inr (foldl (\<lambda>t it. dadd t (getTotalPrice it)) 0 (cart_lines s))"
    by (simp add: t)
  have 3: "getTotalAmount s' = getTotalAmount s"
    if ne: "cart_lines s \<noteq> []" and ex: "rounds_nowhere 0 (cart_lines s)"
      and wf': "wf_store s'" and m: "mset (cart_lines s') = mset (cart_lines s)"
      and ex': "rounds_nowhere 0 (cart_lines s')" for s'
  proof -
    from m ne have ne': "cart_lines s' \<noteq> []" by (metis mset_zero_iff)
    show ?thesis
      using ne ne' foldl_exact [OF ex] foldl_exact [OF ex'] exact_total_mset [OF m]
      by (simp add: t getTotalAmount_lines [OF wf'])
  qed
  have 4: "cart_lines s \<noteq> [] \<and> rounds_nowhere 0 (cart_lines s) \<longrightarrow>
       getTotalAmount s = Inr (exact_total (cart_lines s))"
    using foldl_exact [of 0 "cart_lines s"] by (simp add: t)
  from 1 2 3 4 show ?thesis by blast
qed


theorem getTotalAmount_sum_witness:
  "wf_store pen_clip_cart \<and> cart_lines pen_clip_cart \<noteq> [] \<and>
   rounds_nowhere 0 (cart_lines pen_clip_cart) \<and>
   wf_store clip_pen_cart \<and> mset (cart_lines clip_pen_cart) = mset (cart_lines pen_clip_cart) \<and>
   rounds_nowhere 0 (cart_lines clip_pen_cart) \<and>
   getTotalAmount pen_clip_cart = Inr (5 / 4) \<and>
   getTotalAmount clip_pen_cart = getTotalAmount pen_clip_cart"
proof -
  have wf: "wf_store pen_clip_cart" and wf': "wf_store clip_pen_cart" by code_simp+
  have ne: "cart_lines pen_clip_cart \<noteq> []" by code_simp
  have ex: "rounds_nowhere 0 (cart_lines pen_clip_cart)"
    and ex': "rounds_nowhere 0 (cart_lines clip_pen_cart)" by code_simp+
  have "cart_lines clip_pen_cart = rev (cart_lines pen_clip_cart)" by code_simp
  then have m: "mset (cart_lines clip_pen_cart) = mset (cart_lines pen_clip_cart)"
    by (simp only: mset_rev)
  have v: "exact_total (cart_lines pen_clip_cart) = 5 / 4" by code_simp
  note c = conjunct2 [OF conjunct2 [OF getTotalAmount_sum [OF wf]], rule_format, OF conjI [OF ne ex]]
  from c have a: "getTotalAmount pen_clip_cart = Inr (5 / 4)"
    by (simp only: v)
  from c have b: "getTotalAmount clip_pen_cart = getTotalAmount pen_clip_cart"
    using wf' m ex' by blast
  from wf ne ex wf' m ex' a b show ?thesis by (intro conjI)
qed

text \<open>
  Claim C2 as stated makes the total independent of the order of the lines. Adding a
  laptop, two smartphones and two headphones one at a time, as the menu does, builds a
  cart of three lines; adding the headphones before the smartphones builds the cart with
  the same three lines in another order. The first total is the double
  2399.9500000000003, the second is the double 2399.95.
\<close>

theorem getTotalAmount_order_counterexample:
  "lines_of (add_all [(laptop, 1), (smartphone, 1), (smartphone, 1), (headphones, 1), (headphones, 1)]
       initial_store) =
     [\<lparr>getProduct = laptop, getQuantity = 1\<rparr>, \<lparr>getProduct = smartphone, getQuantity = 2\<rparr>,
      \<lparr>getProduct = headphones, getQuantity = 2\<rparr>] \<and>
   lines_of (add_all [(laptop, 1), (headphones, 1), (headphones, 1), (smartphone, 1), (smartphone, 1)]
       initial_store) =
     [\<lparr>getProduct = laptop, getQuantity = 1\<rparr>, \<lparr>getProduct = headphones, getQuantity = 2\<rparr>,
      \<lparr>getProduct = smartphone, getQuantity = 2\<rparr>] \<and>
   and_then (add_all [(laptop, 1), (smartphone, 1), (smartphone, 1), (headphones, 1), (headphones, 1)]
       initial_store) getTotalAmount
     = Inr (5277545862162023 / 2199023255552) \<and>
   and_then (add_all [(laptop, 1), (headphones, 1), (headphones, 1), (smartphone, 1), (smartphone, 1)]
       initial_store) getTotalAmount
     = Inr (2638772931081011 / 1099511627776) \<and>
   (5277545862162023 / 2199023255552 :: rat) \<noteq> 2638772931081011 / 1099511627776"
  by code_simp

section \<open>Properties of the checkout into the order array\<close>

lemma find_line_in:
  "find_line h xs pid = Inr (Some a) \<Longrightarrow> a \<in> set xs"
  by (induction xs) (auto split: option.splits if_splits)

lemma addProduct_frame:
  assumes "addProduct p q s = Inr s'" "deref (heap s) a \<noteq> None" "a \<notin> set (getItems (cart s))"
  shows "deref (heap s') a = deref (heap s) a \<and> a \<notin> set (getItems (cart s'))"
proof (cases "find_line (heap s) (getItems (cart s)) (getId p)")
  case (Inl e)
  with assms show ?thesis by (simp add: addProduct_def)
next
  case (Inr r)
  show ?thesis
  proof (cases r)
    case None
    obtain b h' where new: "new_CartItem \<lparr>getProduct = p, getQuantity = q\<rparr> (heap s) = (b, h')"
      by (cases "new_CartItem \<lparr>getProduct = p, getQuantity = q\<rparr> (heap s)")
    note np = new_CartItem_props [OF new]
    from np(1) assms(2) have ne: "a \<noteq> b" by auto
    from assms(1) Inr None new have "s' = s\<lparr>heap := h', cart := \<lparr>getItems = getItems (cart s) @ [b],
        capacity = (if getItemCount (cart s) = capacity (cart s) then capacity (cart s) * 2 else capacity (cart s))\<rparr>\<rparr>"
      by (auto simp: addProduct_def Let_def split: if_splits)
    with ne np(3) [OF ne] assms(3) show ?thesis by simp
  next
    case (Some c)
    with Inr have "c \<in> set (getItems (cart s))" by (auto dest: find_line_in)
    with assms(3) have ne: "a \<noteq> c" by auto
    from assms(1) Inr Some obtain it where "s' = s\<lparr>heap := (heap s)[c := Some it]\<rparr>"
      by (auto simp: addProduct_def split: option.splits)
    with ne assms(3) show ?thesis by (simp add: deref_update)
  qed
qed

lemma delete_items_props:
  "distinct xs \<Longrightarrow> \<forall>a \<in> set xs. deref h a \<noteq> None \<Longrightarrow>
   \<exists>h'. delete_items xs h = Inr h' \<and> (\<forall>a. a \<notin> set xs \<longrightarrow> deref h' a = deref h a) \<and>
        (\<forall>a \<in> set xs. deref h' a = None)"
proof (induction xs arbitrary: h)
  case Nil
  then show ?case by simp
next
  case (Cons x xs)
  from Cons.prems obtain v where v: "deref h x = Some v" by auto
  let ?h1 = "h[x := None]"
  from v have lt: "x < length h" by (auto simp: deref_def split: if_splits)
  have d: "delete_CartItem x h = Inr ?h1" by (simp add: delete_CartItem_def v)
  from Cons.prems have "distinct xs" "\<forall>a \<in> set xs. deref ?h1 a \<noteq> None"
    by (auto simp: deref_update)
  from Cons.IH [OF this] obtain h' where h': "delete_items xs ?h1 = Inr h'"
    "\<forall>a. a \<notin> set xs \<longrightarrow> deref h' a = deref ?h1 a" "\<forall>a \<in> set xs. deref h' a = None"
    by blast
  from Cons.prems have "x \<notin> set xs" by simp
  with h' lt d show ?case by (auto simp: deref_update)
qed

lemma clearCart_props:
  assumes "wf_store s"
  shows "\<exists>s'. clearCart s = Inr s' \<and> wf_store s' \<and> getItems (cart s') = [] \<and>
     (\<forall>a. a \<notin> set (getItems (cart s)) \<longrightarrow> deref (heap s') a = deref (heap s) a)"
proof -
  from assms have "distinct (getItems (cart s))" "\<forall>a \<in> set (getItems (cart s)). deref (heap s) a \<noteq> None"
    and cap: "0 < capacity (cart s)"
    by (auto simp: wf_store_def)
  from delete_items_props [OF this(1,2)] obtain h' where
    h': "delete_items (getItems (cart s)) (heap s) = Inr h'"
    "\<forall>a. a \<notin> set (getItems (cart s)) \<longrightarrow> deref h' a = deref (heap s) a"
    by blast
  let ?s' = "s\<lparr>heap := h', cart := (cart s)\<lparr>getItems := []\<rparr>\<rparr>"
  have "clearCart s = Inr ?s'" by (simp add: clearCart_def h')
  moreover have "wf_store ?s'"
    using cap by (simp add: wf_store_def cart_lines_def getItemCount_def List.map_filter_simps)
  ultimately show ?thesis using h'(2) by auto
qed

lemma copy_items_props:
  "\<forall>a \<in> set xs. deref h a \<noteq> None \<Longrightarrow>
   \<exists>bs h'. copy_items xs h = Inr (bs, h') \<and>
      List.map_filter (deref h') bs = List.map_filter (deref h) xs \<and>
      (\<forall>b \<in> set bs. deref h b = None \<and> deref h' b \<noteq> None) \<and>
      (\<forall>a. deref h a \<noteq> None \<longrightarrow> deref h' a = deref h a)"
proof (induction xs arbitrary: h)
  case Nil
  then show ?case by (simp add: List.map_filter_simps)
next
  case (Cons x xs)
  from Cons.prems obtain it where it: "deref h x = Some it" by auto
  obtain b h1 where new: "new_CartItem it h = (b, h1)" by (cases "new_CartItem it h")
  note np = new_CartItem_props [OF new]
  have keep: "deref h1 a = deref h a" if "deref h a \<noteq> None" for a
  proof -
    from that np(1) have "a \<noteq> b" by auto
    then show ?thesis by (rule np(3))
  qed
  from Cons.prems have "\<forall>a \<in> set xs. deref h1 a \<noteq> None" by (auto simp: keep)
  from Cons.IH [OF this] obtain bs h2 where r: "copy_items xs h1 = Inr (bs, h2)"
    "List.map_filter (deref h2) bs = List.map_filter (deref h1) xs"
    "\<forall>b \<in> set bs. deref h1 b = None \<and> deref h2 b \<noteq> None"
    "\<forall>a. deref h1 a \<noteq> None \<longrightarrow> deref h2 a = deref h1 a"
    by blast
  have res: "copy_items (x # xs) h = Inr (b # bs, h2)"
    by (simp add: it new r(1))
  have same: "List.map_filter (deref h1) xs = List.map_filter (deref h) xs"
    using Cons.prems by (auto simp: List.map_filter_def keep cong: filter_cong map_cong)
  have b2: "deref h2 b = Some it" using r(4) np(2) by auto
  have 1: "List.map_filter (deref h2) (b # bs) = List.map_filter (deref h) (x # xs)"
    by (simp add: List.map_filter_simps b2 it r(2) same)
  have 2: "\<forall>c \<in> set (b # bs). deref h c = None \<and> deref h2 c \<noteq> None"
  proof
    fix c assume "c \<in> set (b # bs)"
    then consider "c = b" | "c \<in> set bs" by auto
    then show "deref h c = None \<and> deref h2 c \<noteq> None"
    proof cases
      case 1 with np(1) b2 show ?thesis by simp
    next
      case 2
      with r(3) have c: "deref h1 c = None" "deref h2 c \<noteq> None" by auto
      with keep [of c] show ?thesis by (cases "deref h c") auto
    qed
  qed
  have 3: "\<forall>a. deref h a \<noteq> None \<longrightarrow> deref h2 a = deref h a"
    using keep r(4) by auto
  from res 1 2 3 show ?case by blast
qed

lemma map_filter_eqI:
  "(\<And>a. a \<in> set xs \<Longrightarrow> f a = g a) \<Longrightarrow> List.map_filter f xs = List.map_filter g xs"
  by (induction xs) (simp_all add: List.map_filter_simps split: option.splits)

lemma checkout_mem_empty:
  "isEmpty (mem_store st) \<Longrightarrow> checkout_mem pc st = (Some EmptyCartException, st)"
  by (simp add: checkout_mem_def isEmpty_def getTotalAmount_def Let_def)

lemma getTotalAmount_nonempty:
  assumes "wf_store s" "\<not> isEmpty s"
  shows "getTotalAmount s = Inr (foldl (\<lambda>t it. dadd t (getTotalPrice it)) 0 (cart_lines s))"
proof -
  from assms have "cart_lines s \<noteq> []"
    by (simp add: cart_lines_alloc wf_store_def isEmpty_def getItemCount_def)
  then show ?thesis by (simp add: getTotalAmount_lines [OF assms(1)])
qed


lemma checkout_mem_null:
  assumes "wf_mem st" "\<not> isEmpty (mem_store st)" "select_strategy pc = None"
  shows "checkout_mem pc st = (Some NullPointerDereference, st)"
  using getTotalAmount_nonempty [of "mem_store st"] assms
  by (simp add: checkout_mem_def wf_mem_def Let_def)

lemma new_Order_props:
  assumes "\<forall>a \<in> set xs. deref h a \<noteq> None"
  shows "\<exists>bs h'. new_Order oid method xs tot h =
        Inr (\<lparr>orderId = oid, paymentMethod = method, order_items = bs, totalAmount = tot\<rparr>, h') \<and>
      List.map_filter (deref h') bs = List.map_filter (deref h) xs \<and>
      (\<forall>b \<in> set bs. deref h b = None \<and> deref h' b \<noteq> None) \<and>
      (\<forall>a. deref h a \<noteq> None \<longrightarrow> deref h' a = deref h a)"
proof -
  from copy_items_props [OF assms] obtain bs h' where c: "copy_items xs h = Inr (bs, h')"
    "List.map_filter (deref h') bs = List.map_filter (deref h) xs"
    "\<forall>b \<in> set bs. deref h b = None \<and> deref h' b \<noteq> None"
    "\<forall>a. deref h a \<noteq> None \<longrightarrow> deref h' a = deref h a"
    by blast
  have "new_Order oid method xs tot h =
        Inr (\<lparr>orderId = oid, paymentMethod = method, order_items = bs, totalAmount = tot\<rparr>, h')"
    by (simp add: new_Order_def c(1))
  with c(2,3,4) show ?thesis by blast
qed

lemma wf_store_heap_eq:
  assumes "wf_store s" "\<forall>a. deref (heap s) a \<noteq> None \<longrightarrow> deref h a = deref (heap s) a"
  shows "wf_store (s\<lparr>heap := h\<rparr>)" and "cart_lines (s\<lparr>heap := h\<rparr>) = cart_lines s"
proof -
  from assms(1) have alloc: "\<forall>a \<in> set (getItems (cart s)). deref (heap s) a \<noteq> None"
    by (simp add: wf_store_def)
  with assms(2) have eq: "\<And>a. a \<in> set (getItems (cart s)) \<Longrightarrow> deref h a = deref (heap s) a"
    by auto
  then show l: "cart_lines (s\<lparr>heap := h\<rparr>) = cart_lines s"
    unfolding cart_lines_def by (simp add: map_filter_eqI [of _ "deref h" "deref (heap s)"])
  from assms(1) alloc eq show "wf_store (s\<lparr>heap := h\<rparr>)"
    using l by (simp add: wf_store_def getItemCount_def)
qed

lemma checkout_mem_full:
  assumes "wf_mem st" "\<not> isEmpty (mem_store st)" "select_strategy pc = Some m"
    "\<not> length (orders st) < orders_capacity"
  shows "fst (checkout_mem pc st) = Some ArrayIndexOutOfBounds"
proof -
  let ?s = "mem_store st"
  from assms(1) have wf: "wf_store ?s" by (simp add: wf_mem_def)
  then have alloc: "\<forall>a \<in> set (getItems (cart ?s)). deref (heap ?s) a \<noteq> None"
    by (simp add: wf_store_def)
  note tot = getTotalAmount_nonempty [OF wf assms(2)]
  from new_Order_props [OF alloc] obtain ord h' where
    "new_Order (nextOrderId st) (getMethodName m) (getItems (cart ?s))
       (foldl (\<lambda>t it. dadd t (getTotalPrice it)) 0 (cart_lines ?s)) (heap ?s) = Inr (ord, h')"
    by blast
  with tot assms(3,4) show ?thesis by (simp add: checkout_mem_def Let_def)
qed

lemma checkout_mem_ok:
  assumes "wf_mem st" "\<not> isEmpty (mem_store st)" "select_strategy pc = Some m"
    "length (orders st) < orders_capacity"
  shows "\<exists>st' ord. checkout_mem pc st = (None, st') \<and>
      orders st' = orders st @ [ord] \<and> orderId ord = nextOrderId st \<and>
      paymentMethod ord = getMethodName m \<and>
      getTotalAmount (mem_store st) = Inr (totalAmount ord) \<and>
      nextOrderId st' = nextOrderId st + 1 \<and> isEmpty (mem_store st') \<and> wf_mem st' \<and>
      order_lines st' ord = cart_lines (mem_store st) \<and>
      (\<forall>old \<in> set (orders st). order_lines st' old = order_lines st old)"
proof -
  let ?s = "mem_store st" and ?xs = "getItems (cart (mem_store st))"
  let ?tot = "foldl (\<lambda>t it. dadd t (getTotalPrice it)) 0 (cart_lines ?s)"
  from assms(1) have wf: "wf_store ?s"
    and olds: "\<forall>ord \<in> set (orders st). \<forall>a \<in> set (order_items ord).
        deref (heap ?s) a \<noteq> None \<and> a \<notin> set ?xs"
    by (simp_all add: wf_mem_def)
  from wf have alloc: "\<forall>a \<in> set ?xs. deref (heap ?s) a \<noteq> None"
    by (simp add: wf_store_def)
  note tot = getTotalAmount_nonempty [OF wf assms(2)]
  from new_Order_props [OF alloc, of "nextOrderId st" "getMethodName m" ?tot] obtain bs h' where
    no: "new_Order (nextOrderId st) (getMethodName m) ?xs ?tot (heap ?s) =
       Inr (\<lparr>orderId = nextOrderId st, paymentMethod = getMethodName m, order_items = bs,
             totalAmount = ?tot\<rparr>, h')"
    and copy: "List.map_filter (deref h') bs = List.map_filter (deref (heap ?s)) ?xs"
    and fresh: "\<forall>b \<in> set bs. deref (heap ?s) b = None \<and> deref h' b \<noteq> None"
    and keep: "\<forall>a. deref (heap ?s) a \<noteq> None \<longrightarrow> deref h' a = deref (heap ?s) a"
    by blast
  let ?ord = "\<lparr>orderId = nextOrderId st, paymentMethod = getMethodName m, order_items = bs,
             totalAmount = ?tot\<rparr>"
  let ?s1 = "?s\<lparr>heap := h'\<rparr>"
  note wf1 = wf_store_heap_eq [OF wf keep]
  from clearCart_props [OF wf1(1)] obtain s2 where
    cc: "clearCart ?s1 = Inr s2" and wf2: "wf_store s2" and e2: "getItems (cart s2) = []"
    and frame: "\<forall>a. a \<notin> set ?xs \<longrightarrow> deref (heap s2) a = deref h' a"
    by auto
  let ?st' = "st\<lparr>mem_store := s2, nextOrderId := nextOrderId st + 1, orders := orders st @ [?ord]\<rparr>"
  have res: "checkout_mem pc st = (None, ?st')"
    using tot no cc assms(3,4) by (simp add: checkout_mem_def Let_def)
  have bs_out: "\<forall>b \<in> set bs. b \<notin> set ?xs" using fresh alloc by auto
  have new_lines: "order_lines ?st' ?ord = cart_lines ?s"
  proof -
    have "List.map_filter (deref (heap s2)) bs = List.map_filter (deref h') bs"
      using bs_out frame by (auto intro: map_filter_eqI)
    with copy show ?thesis by (simp add: order_lines_def cart_lines_def)
  qed
  have old_cells: "deref (heap s2) a = deref (heap ?s) a"
    if "old \<in> set (orders st)" "a \<in> set (order_items old)" for old a
    using olds that frame keep by auto
  have old_lines: "\<forall>old \<in> set (orders st). order_lines ?st' old = order_lines st old"
    using old_cells by (auto simp: order_lines_def intro: map_filter_eqI)
  have "wf_mem ?st'"
    using wf2 e2 olds old_cells fresh bs_out frame
    by (auto simp: wf_mem_def)
  moreover have "isEmpty (mem_store ?st')" by (simp add: isEmpty_def getItemCount_def e2)
  ultimately show ?thesis using res new_lines old_lines tot by auto
qed


lemma checkout_mem_None:
  assumes "wf_mem st" "checkout_mem pc st = (None, st')"
  shows "\<not> isEmpty (mem_store st) \<and> (\<exists>m. select_strategy pc = Some m) \<and>
     length (orders st) < orders_capacity"
proof (intro conjI)
  show ne: "\<not> isEmpty (mem_store st)"
    using assms(2) checkout_mem_empty [of st pc] by auto
  show m: "\<exists>m. select_strategy pc = Some m"
    using assms checkout_mem_null [OF assms(1) ne, of pc] by (cases "select_strategy pc") auto
  then obtain m where "select_strategy pc = Some m" ..
  then show "length (orders st) < orders_capacity"
    using assms checkout_mem_full [OF assms(1) ne, of pc m] by auto
qed

lemma order_lines_frame:
  assumes "\<forall>a \<in> set (order_items ord). deref (heap (mem_store st')) a = deref (heap (mem_store st)) a"
  shows "order_lines st' ord = order_lines st ord"
  unfolding order_lines_def using assms
  by (simp add: map_filter_eqI [of _ "deref (heap (mem_store st'))" "deref (heap (mem_store st))"])

lemma step_op_props:
  assumes "wf_mem st" "step_op x st = Inr st'"
  shows "wf_mem st' \<and> (\<exists>new. orders st' = orders st @ new) \<and>
     (\<forall>old \<in> set (orders st). order_lines st' old = order_lines st old)"
proof (cases x)
  case (AddProduct p q)
  from assms(1) have wf: "wf_store (mem_store st)"
    and olds: "\<forall>ord \<in> set (orders st). \<forall>a \<in> set (order_items ord).
        deref (heap (mem_store st)) a \<noteq> None \<and> a \<notin> set (getItems (cart (mem_store st)))"
    by (simp_all add: wf_mem_def)
  from addProduct_refines [OF wf, of p q] obtain s where
    s: "addProduct p q (mem_store st) = Inr s" "wf_store s" by blast
  with assms(2) AddProduct have st': "st' = st\<lparr>mem_store := s\<rparr>" by simp
  have cells: "deref (heap s) a = deref (heap (mem_store st)) a \<and> a \<notin> set (getItems (cart s))"
    if "old \<in> set (orders st)" "a \<in> set (order_items old)" for old a
    using addProduct_frame [OF s(1), of a] olds that by blast
  have "wf_mem st'"
    using s(2) olds cells by (auto simp: wf_mem_def st')
  moreover have "\<forall>old \<in> set (orders st). order_lines st' old = order_lines st old"
    using cells by (auto simp: st' intro!: order_lines_frame)
  ultimately show ?thesis by (simp add: st')
next
  case ClearCart
  from assms(1) have wf: "wf_store (mem_store st)"
    and olds: "\<forall>ord \<in> set (orders st). \<forall>a \<in> set (order_items ord).
        deref (heap (mem_store st)) a \<noteq> None \<and> a \<notin> set (getItems (cart (mem_store st)))"
    by (simp_all add: wf_mem_def)
  from clearCart_props [OF wf] obtain s where
    s: "clearCart (mem_store st) = Inr s" "wf_store s" "getItems (cart s) = []"
    "\<forall>a. a \<notin> set (getItems (cart (mem_store st))) \<longrightarrow> deref (heap s) a = deref (heap (mem_store st)) a"
    by blast
  with assms(2) ClearCart have st': "st' = st\<lparr>mem_store := s\<rparr>" by simp
  have cells: "deref (heap s) a = deref (heap (mem_store st)) a"
    if "old \<in> set (orders st)" "a \<in> set (order_items old)" for old a
    using s(4) olds that by blast
  have "wf_mem st'"
    using s(2,3) olds cells by (auto simp: wf_mem_def st')
  moreover have "\<forall>old \<in> set (orders st). order_lines st' old = order_lines st old"
    using cells by (auto simp: st' intro!: order_lines_frame)
  ultimately show ?thesis by (simp add: st')
next
  case (Checkout pc)
  with assms(2) have c: "checkout_mem pc st = (None, st')"
    by (auto split: prod.splits option.splits)
  from checkout_mem_None [OF assms(1) c] obtain m where
    "\<not> isEmpty (mem_store st)" "select_strategy pc = Some m" "length (orders st) < orders_capacity"
    by blast
  from checkout_mem_ok [OF assms(1) this] c show ?thesis by auto
qed

lemma step_op_total:
  assumes "wf_mem st" "is_cart_op x"
  shows "\<exists>st'. step_op x st = Inr st'"
proof (cases x)
  case (AddProduct p q)
  from assms(1) have "wf_store (mem_store st)" by (simp add: wf_mem_def)
  from addProduct_refines [OF this, of p q] AddProduct show ?thesis by auto
next
  case ClearCart
  from assms(1) have "wf_store (mem_store st)" by (simp add: wf_mem_def)
  from clearCart_props [OF this] ClearCart show ?thesis by auto
next
  case (Checkout pc)
  with assms(2) show ?thesis by simp
qed

lemma run_ops_props:
  "wf_mem st \<Longrightarrow> run_ops ops st = Inr st' \<Longrightarrow>
   wf_mem st' \<and> (\<exists>new. orders st' = orders st @ new) \<and>
   (\<forall>old \<in> set (orders st). order_lines st' old = order_lines st old)"
proof (induction ops arbitrary: st)
  case Nil
  then show ?case by simp
next
  case (Cons x ops)
  from Cons.prems(2) obtain st1 where 1: "step_op x st = Inr st1" and 2: "run_ops ops st1 = Inr st'"
    by (auto simp: and_then_def split: sum.splits)
  note p1 = step_op_props [OF Cons.prems(1) 1]
  note p2 = Cons.IH [OF conjunct1 [OF p1] 2]
  from p1 obtain new1 where n1: "orders st1 = orders st @ new1" by blast
  from p2 obtain new2 where n2: "orders st' = orders st1 @ new2" by blast
  have "\<forall>old \<in> set (orders st). order_lines st' old = order_lines st old"
    using p1 p2 n1 by auto
  with p2 n1 n2 show ?case by auto
qed

lemma run_ops_total:
  "wf_mem st \<Longrightarrow> \<forall>x \<in> set ops. is_cart_op x \<Longrightarrow> \<exists>st'. run_ops ops st = Inr st'"
proof (induction ops arbitrary: st)
  case Nil
  then show ?case by simp
next
  case (Cons x ops)
  from step_op_total [OF Cons.prems(1), of x] Cons.prems(2) obtain st1 where
    1: "step_op x st = Inr st1" by auto
  from step_op_props [OF Cons.prems(1) 1] have "wf_mem st1" by simp
  from Cons.IH [OF this] Cons.prems(2) 1 show ?case by (auto simp: and_then_def)
qed


lemma sint_small: "k \<le> 101 \<Longrightarrow> sint (of_nat k :: cint) = int k"
  by (simp add: signed_of_nat signed_take_bit_int_eq_self)

lemma ids_ok_initial: "ids_ok initial_mem"
  by (simp add: ids_ok_def initial_mem_def orders_capacity_def)

lemma wf_mem_initial: "wf_mem initial_mem"
  by (simp add: wf_mem_def wf_store_def initial_mem_def initial_store_def getInstance_def
      cart_lines_def getItemCount_def List.map_filter_simps)

lemma step_op_ids:
  assumes "wf_mem st" "ids_ok st" "step_op x st = Inr st'"
  shows "ids_ok st' \<and>
     length (orders st') = length (orders st) + (if is_cart_op x then 0 else 1)"
proof (cases x)
  case (AddProduct p q)
  with assms(3) obtain s where "st' = st\<lparr>mem_store := s\<rparr>" by (auto split: sum.splits)
  with assms(2) AddProduct show ?thesis by (simp add: ids_ok_def)
next
  case ClearCart
  with assms(3) obtain s where "st' = st\<lparr>mem_store := s\<rparr>" by (auto split: sum.splits)
  with assms(2) ClearCart show ?thesis by (simp add: ids_ok_def)
next
  case (Checkout pc)
  with assms(3) have c: "checkout_mem pc st = (None, st')"
    by (auto split: prod.splits option.splits)
  from checkout_mem_None [OF assms(1) c] obtain m where
    pre: "\<not> isEmpty (mem_store st)" "select_strategy pc = Some m"
      "length (orders st) < orders_capacity"
    by blast
  from checkout_mem_ok [OF assms(1) pre] c obtain ord where
    ord: "orders st' = orders st @ [ord]" "orderId ord = nextOrderId st"
      "nextOrderId st' = nextOrderId st + 1"
    by auto
  from assms(2) have n: "nextOrderId st = of_nat (Suc (length (orders st)))"
    and ids: "map orderId (orders st) = map of_nat [1..<Suc (length (orders st))]"
    by (simp_all add: ids_ok_def)
  have "ids_ok st'"
    using pre(3) n ids ord by (simp add: ids_ok_def)
  with ord(1) Checkout show ?thesis by simp
qed

lemma run_ops_ids:
  "wf_mem st \<Longrightarrow> ids_ok st \<Longrightarrow> run_ops ops st = Inr st' \<Longrightarrow>
   ids_ok st' \<and>
   length (orders st') = length (orders st) + length (filter (\<lambda>x. \<not> is_cart_op x) ops)"
proof (induction ops arbitrary: st)
  case Nil
  then show ?case by simp
next
  case (Cons x ops)
  from Cons.prems(3) obtain st1 where 1: "step_op x st = Inr st1" and 2: "run_ops ops st1 = Inr st'"
    by (auto simp: and_then_def split: sum.splits)
  note w = step_op_props [OF Cons.prems(1) 1, THEN conjunct1]
  note i = step_op_ids [OF Cons.prems(1,2) 1]
  from Cons.IH [OF w conjunct1 [OF i] 2] i show ?case by auto
qed


lemma run_ops_append:
  "run_ops (xs @ ys) st = and_then (run_ops xs st) (run_ops ys)"
  by (induction xs arbitrary: st) (auto simp: and_then_def split: sum.splits)

lemma addProduct_not_empty:
  assumes "wf_store s"
  shows "\<exists>s'. addProduct p q s = Inr s' \<and> wf_store s' \<and> \<not> isEmpty s'"
proof -
  from addProduct_refines [OF assms, of p q] obtain s' where
    s': "addProduct p q s = Inr s'" "wf_store s'" "cart_lines s' = add_line p q (cart_lines s)"
    by blast
  have "add_line p q (cart_lines s) \<noteq> []" by (cases "cart_lines s") auto
  with s'(3) have "getItems (cart s') \<noteq> []"
    by (auto simp: cart_lines_def List.map_filter_simps)
  with s'(1,2) show ?thesis by (auto simp: isEmpty_def getItemCount_def)
qed

lemma repeated_checkouts:
  "wf_mem st \<Longrightarrow> length (orders st) + n \<le> orders_capacity \<Longrightarrow>
   select_strategy pc = Some m \<Longrightarrow>
   \<exists>st'. run_ops (concat (replicate n [AddProduct p q, Checkout pc])) st = Inr st' \<and>
      wf_mem st' \<and> length (orders st') = length (orders st) + n"
proof (induction n arbitrary: st)
  case 0
  then show ?case by simp
next
  case (Suc n)
  from Suc.prems(1) have "wf_store (mem_store st)" by (simp add: wf_mem_def)
  from addProduct_not_empty [OF this, of p q] obtain s where
    s: "addProduct p q (mem_store st) = Inr s" "\<not> isEmpty s" by blast
  let ?st1 = "st\<lparr>mem_store := s\<rparr>"
  have 1: "step_op (AddProduct p q) st = Inr ?st1" by (simp add: s(1))
  from step_op_props [OF Suc.prems(1) 1] have wf1: "wf_mem ?st1" by simp
  from Suc.prems(2) have "length (orders ?st1) < orders_capacity" by simp
  from checkout_mem_ok [OF wf1 _ Suc.prems(3) this] s(2) obtain st2 ord where
    2: "checkout_mem pc ?st1 = (None, st2)" "orders st2 = orders ?st1 @ [ord]" "wf_mem st2"
    by auto
  from 2(2) Suc.prems(2) have "length (orders st2) + n \<le> orders_capacity" by simp
  from Suc.IH [OF 2(3) this Suc.prems(3)] obtain st' where
    3: "run_ops (concat (replicate n [AddProduct p q, Checkout pc])) st2 = Inr st'"
      "wf_mem st'" "length (orders st') = length (orders st2) + n"
    by blast
  from 1 2 3 show ?case by (simp add: and_then_def s(1))
qed


text \<open>
  One hundred checkouts of one headphones each, and one more headphones in the cart,
  reach the state \<open>mem_full\<close>.
\<close>

lemma first_free_replicate: "first_free (replicate n (Some v) @ h) = n + first_free h"
  by (induction n) auto

lemma first_free_full: "first_free (replicate n (Some v)) = n"
  using first_free_replicate [of n v "[]"] by simp

lemma one_total: "dadd 0 (getTotalPrice one_headphones) = getPrice headphones"
  by code_simp

lemma add_after:
  "addProduct headphones 1 (mem_store (mem_after n)) =
     Inr \<lparr>heap = replicate (Suc n) (Some one_headphones), cart = \<lparr>getItems = [0], capacity = 10\<rparr>\<rparr>"
  by (simp add: addProduct_def mem_after_def new_CartItem_def getItemCount_def one_headphones_def)

lemma checkout_after:
  assumes "n < 100"
  shows "checkout_mem 1
     ((mem_after n)\<lparr>mem_store := \<lparr>heap = replicate (Suc n) (Some one_headphones),
                                     cart = \<lparr>getItems = [0], capacity = 10\<rparr>\<rparr>\<rparr>) =
     (None, mem_after (Suc n))"
proof -
  let ?H = "replicate (Suc n) (Some one_headphones)"
  let ?S = "\<lparr>heap = ?H, cart = \<lparr>getItems = [0], capacity = 10\<rparr>\<rparr>"
  let ?st = "(mem_after n)\<lparr>mem_store := ?S\<rparr>"
  let ?ord = "\<lparr>orderId = of_nat (Suc n), paymentMethod = ''Cash'', order_items = [Suc n],
             totalAmount = getPrice headphones\<rparr>"
  have d0: "deref ?H 0 = Some one_headphones" by (simp add: deref_def)
  have tot: "getTotalAmount ?S = Inr (getPrice headphones)"
    by (simp add: getTotalAmount_def getItemCount_def d0 one_total del: replicate.simps)
  have new: "new_CartItem one_headphones ?H = (Suc n, replicate (Suc (Suc n)) (Some one_headphones))"
    using first_free_full [of "Suc n" one_headphones]
    by (simp add: new_CartItem_def replicate_append_same del: replicate.simps)
       (simp add: replicate_append_same)
  have copy: "copy_items [0] ?H = Inr ([Suc n], replicate (Suc (Suc n)) (Some one_headphones))"
    by (simp add: d0 new del: replicate.simps)
  have no: "new_Order (of_nat (Suc n)) ''Cash'' [0] (getPrice headphones) ?H =
      Inr (?ord, replicate (Suc (Suc n)) (Some one_headphones))"
    unfolding new_Order_def copy by simp
  have cc: "clearCart \<lparr>heap = replicate (Suc (Suc n)) (Some one_headphones),
                        cart = \<lparr>getItems = [0], capacity = 10\<rparr>\<rparr> =
      Inr \<lparr>heap = None # replicate (Suc n) (Some one_headphones),
           cart = \<lparr>getItems = [], capacity = 10\<rparr>\<rparr>"
    by (simp add: clearCart_def delete_CartItem_def deref_def)
  have sel: "select_strategy 1 = Some CashPayment" by (simp add: select_strategy_def)
  have st: "mem_store ?st = ?S" "nextOrderId ?st = of_nat (Suc n)"
    "orders ?st = orders (mem_after n)" "length (orders (mem_after n)) = n"
    by (simp_all add: mem_after_def)
  have "checkout_mem 1 ?st =
      (None, ?st\<lparr>mem_store := \<lparr>heap = None # replicate (Suc n) (Some one_headphones),
                                 cart = \<lparr>getItems = [], capacity = 10\<rparr>\<rparr>,
                   nextOrderId := of_nat (Suc n) + 1,
                   orders := orders (mem_after n) @ [?ord]\<rparr>)"
    using assms
    by (simp add: checkout_mem_def Let_def sel st tot no cc orders_capacity_def
        del: replicate.simps of_nat_Suc)
  also have "?st\<lparr>mem_store := \<lparr>heap = None # replicate (Suc n) (Some one_headphones),
                                 cart = \<lparr>getItems = [], capacity = 10\<rparr>\<rparr>,
                   nextOrderId := of_nat (Suc n) + 1,
                   orders := orders (mem_after n) @ [?ord]\<rparr> = mem_after (Suc n)"
    by (simp add: mem_after_def)
  finally show ?thesis .
qed

lemma run_after:
  assumes "n < 100"
  shows "run_ops [AddProduct headphones 1, Checkout 1] (mem_after n) = Inr (mem_after (Suc n))"
proof -
  have "step_op (AddProduct headphones 1) (mem_after n) =
      Inr ((mem_after n)\<lparr>mem_store := \<lparr>heap = replicate (Suc n) (Some one_headphones),
                                     cart = \<lparr>getItems = [0], capacity = 10\<rparr>\<rparr>\<rparr>)"
    unfolding step_op.simps add_after by simp
  moreover have "step_op (Checkout 1)
      ((mem_after n)\<lparr>mem_store := \<lparr>heap = replicate (Suc n) (Some one_headphones),
                                     cart = \<lparr>getItems = [0], capacity = 10\<rparr>\<rparr>\<rparr>) =
      Inr (mem_after (Suc n))"
    unfolding step_op.simps checkout_after [OF assms] by simp
  ultimately show ?thesis
    unfolding run_ops.simps and_then_def by simp
qed

lemma run_after_many:
  "n + k \<le> 100 \<Longrightarrow>
   run_ops (concat (replicate k [AddProduct headphones 1, Checkout 1])) (mem_after n) =
     Inr (mem_after (n + k))"
proof (induction k arbitrary: n)
  case 0
  then show ?case by simp
next
  case (Suc k)
  from Suc.prems have n: "n < 100" and le: "Suc n + k \<le> 100" by simp_all
  have "concat (replicate (Suc k) [AddProduct headphones 1, Checkout 1]) =
      [AddProduct headphones 1, Checkout 1] @ concat (replicate k [AddProduct headphones 1, Checkout 1])"
    by simp
  then have "run_ops (concat (replicate (Suc k) [AddProduct headphones 1, Checkout 1])) (mem_after n) =
      and_then (run_ops [AddProduct headphones 1, Checkout 1] (mem_after n))
        (run_ops (concat (replicate k [AddProduct headphones 1, Checkout 1])))"
    by (simp only: run_ops_append)
  also have "\<dots> = run_ops (concat (replicate k [AddProduct headphones 1, Checkout 1])) (mem_after (Suc n))"
    by (simp only: run_after [OF n] and_then_def sum.case)
  also have "\<dots> = Inr (mem_after (Suc n + k))" by (rule Suc.IH [OF le])
  finally show ?case by simp
qed

lemma first_checkout:
  "run_ops [AddProduct headphones 1, Checkout 1] initial_mem = Inr (mem_after 1)"
  by code_simp

lemma mem_full_reached:
  "run_ops (concat (replicate 100 [AddProduct headphones 1, Checkout 1]) @
            [AddProduct headphones 1]) initial_mem = Inr mem_full"
proof -
  have split: "concat (replicate 100 [AddProduct headphones 1, Checkout 1]) =
      [AddProduct headphones 1, Checkout 1] @
      concat (replicate 99 [AddProduct headphones 1, Checkout 1])"
    by (simp add: numeral_eq_Suc)
  have many: "run_ops (concat (replicate 99 [AddProduct headphones 1, Checkout 1])) (mem_after 1) =
      Inr (mem_after 100)"
    using run_after_many [of 1 99] by simp
  have last: "run_ops [AddProduct headphones 1] (mem_after 100) = Inr mem_full"
    unfolding run_ops.simps step_op.simps add_after and_then_def
    by (simp add: mem_after_def mem_full_def one_headphones_def)
  have "run_ops (concat (replicate 100 [AddProduct headphones 1, Checkout 1]) @
            [AddProduct headphones 1]) initial_mem =
     and_then (and_then (run_ops [AddProduct headphones 1, Checkout 1] initial_mem)
                 (run_ops (concat (replicate 99 [AddProduct headphones 1, Checkout 1]))))
       (run_ops [AddProduct headphones 1])"
    by (simp only: split run_ops_append)
  also have "\<dots> = Inr mem_full"
    by (simp only: first_checkout many last and_then_def sum.case)
  finally show ?thesis .
qed

section \<open>An order does not share state with the cart\<close>

text \<open>
  Claim C9. Let a checkout succeed in a well-formed state. The order it appends holds
  the lines the cart had before the checkout, copied into cells of its own, and the
  total \<^verbatim>\<open>getTotalAmount\<close> returned. After any later run of cart operations and further
  checkouts the order is still in its place in the order array, its lines are the same
  (id, name, price and quantity of each), and none of its pointers is a pointer of the
  cart. Every run of \<^verbatim>\<open>addProduct\<close> and \<^verbatim>\<open>clearCart\<close> calls returns.
\<close>

theorem order_snapshot_stable:
  assumes "wf_mem st" "checkout_mem pc st = (None, st')"
  shows "\<exists>ord. orders st' = orders st @ [ord] \<and>
     order_lines st' ord = cart_lines (mem_store st) \<and>
     getTotalAmount (mem_store st) = Inr (totalAmount ord) \<and>
     (\<forall>ops st''. run_ops ops st' = Inr st'' \<longrightarrow>
        (\<exists>new. orders st'' = orders st' @ new) \<and>
        order_lines st'' ord = order_lines st' ord \<and>
        set (order_items ord) \<inter> set (getItems (cart (mem_store st''))) = {}) \<and>
     (\<forall>ops. (\<forall>x \<in> set ops. is_cart_op x) \<longrightarrow> (\<exists>st''. run_ops ops st' = Inr st''))"
proof -
  from checkout_mem_None [OF assms] obtain m where
    "\<not> isEmpty (mem_store st)" "select_strategy pc = Some m" "length (orders st) < orders_capacity"
    by blast
  from checkout_mem_ok [OF assms(1) this] assms(2) obtain ord where
    ord: "orders st' = orders st @ [ord]" "order_lines st' ord = cart_lines (mem_store st)"
    "getTotalAmount (mem_store st) = Inr (totalAmount ord)" and wf': "wf_mem st'"
    by auto
  have later: "(\<exists>new. orders st'' = orders st' @ new) \<and>
        order_lines st'' ord = order_lines st' ord \<and>
        set (order_items ord) \<inter> set (getItems (cart (mem_store st''))) = {}"
    if r: "run_ops ops st' = Inr st''" for ops st''
  proof -
    note p = run_ops_props [OF wf' r]
    from p obtain new where new: "orders st'' = orders st' @ new" by blast
    with ord(1) have "ord \<in> set (orders st'')" by simp
    with p have "\<forall>a \<in> set (order_items ord). a \<notin> set (getItems (cart (mem_store st'')))"
      by (auto simp: wf_mem_def)
    with p new ord(1) show ?thesis by auto
  qed
  from ord later run_ops_total [OF wf'] show ?thesis by blast
qed


theorem order_snapshot_stable_witness:
  "wf_mem mem_two_headphones \<and> fst (checkout_mem 1 mem_two_headphones) = None \<and>
   list_all is_cart_op later_ops \<and>
   (\<exists>ord st''. orders (snd (checkout_mem 1 mem_two_headphones)) = [ord] \<and>
      run_ops later_ops (snd (checkout_mem 1 mem_two_headphones)) = Inr st'' \<and>
      order_lines st'' ord = [\<lparr>getProduct = headphones, getQuantity = 2\<rparr>])"
proof -
  let ?st' = "snd (checkout_mem 1 mem_two_headphones)"
  have wf: "wf_mem mem_two_headphones" by code_simp
  have none: "fst (checkout_mem 1 mem_two_headphones) = None" by code_simp
  then have co: "checkout_mem 1 mem_two_headphones = (None, ?st')"
    by (simp add: prod_eq_iff)
  have cart: "\<forall>x \<in> set later_ops. is_cart_op x" by code_simp
  have lines: "cart_lines (mem_store mem_two_headphones) = [\<lparr>getProduct = headphones, getQuantity = 2\<rparr>]"
    and no_orders: "orders mem_two_headphones = []"
    by code_simp+
  from order_snapshot_stable [OF wf co] obtain ord where
    ord: "orders ?st' = orders mem_two_headphones @ [ord]"
      "order_lines ?st' ord = cart_lines (mem_store mem_two_headphones)"
    and later: "\<forall>ops st''. run_ops ops ?st' = Inr st'' \<longrightarrow>
        (\<exists>new. orders st'' = orders ?st' @ new) \<and>
        order_lines st'' ord = order_lines ?st' ord \<and>
        set (order_items ord) \<inter> set (getItems (cart (mem_store st''))) = {}"
    and total: "\<forall>ops. (\<forall>x \<in> set ops. is_cart_op x) \<longrightarrow> (\<exists>st''. run_ops ops ?st' = Inr st'')"
    by blast
  from total cart obtain st'' where run: "run_ops later_ops ?st' = Inr st''" by blast
  with later have "order_lines st'' ord = order_lines ?st' ord" by blast
  with ord lines no_orders run wf none cart show ?thesis by (auto simp: list_all_iff)
qed


section \<open>The bound of the order array\<close>

text \<open>
  Claim C10. In every state a run reaches from the initial state, the number of stored
  orders is the number of checkouts of the run and is at most 100, and the order ids
  are 1, 2, ... in checkout order. A checkout on a cart with lines and a payment choice
  from 1 to 3 stores its order at the index \<^verbatim>\<open>orderCount\<close>: with fewer than 100 stored
  orders it succeeds and the new order gets the next id; with 100 stored orders the
  store is outside the array.
\<close>

theorem order_array_bounds:
  assumes "run_ops ops initial_mem = Inr st"
  shows "length (orders st) = length (filter (\<lambda>x. \<not> is_cart_op x) ops) \<and>
     length (orders st) \<le> 100 \<and>
     map (\<lambda>ord. sint (orderId ord)) (orders st) = map int [1..<Suc (length (orders st))] \<and>
     (\<forall>pc m. \<not> isEmpty (mem_store st) \<and> select_strategy pc = Some m \<longrightarrow>
        (length (orders st) < 100 \<longrightarrow>
           (\<exists>st' ord. checkout_mem pc st = (None, st') \<and> orders st' = orders st @ [ord] \<and>
              sint (orderId ord) = int (length (orders st)) + 1)) \<and>
        (length (orders st) = 100 \<longrightarrow>
           fst (checkout_mem pc st) = Some ArrayIndexOutOfBounds))"
proof -
  note wf0 = wf_mem_initial and ids0 = ids_ok_initial
  from run_ops_props [OF wf0 assms] have wf: "wf_mem st" by simp
  from run_ops_ids [OF wf0 ids0 assms] have ids: "ids_ok st"
    and len: "length (orders st) = length (filter (\<lambda>x. \<not> is_cart_op x) ops)"
    by (simp_all add: initial_mem_def)
  from ids have le: "length (orders st) \<le> 100"
    and nxt: "nextOrderId st = of_nat (Suc (length (orders st)))"
    and m: "map orderId (orders st) = map of_nat [1..<Suc (length (orders st))]"
    by (simp_all add: ids_ok_def orders_capacity_def)
  have "map (\<lambda>ord. sint (orderId ord)) (orders st) = map sint (map orderId (orders st))"
    by (simp add: o_def)
  also have "\<dots> = map (\<lambda>k. sint (of_nat k :: cint)) [1..<Suc (length (orders st))]"
    by (simp add: m o_def)
  also have "\<dots> = map int [1..<Suc (length (orders st))]"
    using le by (intro map_cong refl sint_small) auto
  finally have consecutive:
    "map (\<lambda>ord. sint (orderId ord)) (orders st) = map int [1..<Suc (length (orders st))]" .
  have ok: "\<exists>st' ord. checkout_mem pc st = (None, st') \<and> orders st' = orders st @ [ord] \<and>
              sint (orderId ord) = int (length (orders st)) + 1"
    if "\<not> isEmpty (mem_store st)" "select_strategy pc = Some m" "length (orders st) < 100"
    for pc m
  proof -
    from that(3) have "length (orders st) < orders_capacity" by (simp add: orders_capacity_def)
    from checkout_mem_ok [OF wf that(1,2) this] obtain st' ord where
      "checkout_mem pc st = (None, st')" "orders st' = orders st @ [ord]"
      "orderId ord = nextOrderId st"
      by blast
    moreover have "sint (nextOrderId st) = int (length (orders st)) + 1"
      using le by (simp add: nxt sint_small del: of_nat_Suc)
    ultimately show ?thesis by auto
  qed
  have full: "fst (checkout_mem pc st) = Some ArrayIndexOutOfBounds"
    if "\<not> isEmpty (mem_store st)" "select_strategy pc = Some m" "length (orders st) = 100"
    for pc m
    using checkout_mem_full [OF wf that(1,2)] that(3) by (simp add: orders_capacity_def)
  from len le consecutive ok full show ?thesis by blast
qed


theorem order_array_bounds_witness:
  "run_ops [AddProduct headphones 1] initial_mem = Inr mem_one_headphones \<and>
   \<not> isEmpty (mem_store mem_one_headphones) \<and> select_strategy 1 = Some CashPayment \<and>
   length (orders mem_one_headphones) < 100 \<and>
   (\<exists>st' ord. checkout_mem 1 mem_one_headphones = (None, st') \<and>
      orders st' = orders mem_one_headphones @ [ord] \<and> sint (orderId ord) = 1) \<and>
   (\<exists>st. run_ops (concat (replicate 100 [AddProduct headphones 1, Checkout 1]) @
                  [AddProduct headphones 1]) initial_mem = Inr st \<and>
      \<not> isEmpty (mem_store st) \<and> length (orders st) = 100 \<and>
      fst (checkout_mem 1 st) = Some ArrayIndexOutOfBounds)"
proof -
  have sel: "select_strategy 1 = Some CashPayment" by (simp add: select_strategy_def)
  have small: "run_ops [AddProduct headphones 1] initial_mem = Inr mem_one_headphones"
    and ne: "\<not> isEmpty (mem_store mem_one_headphones)"
    and len: "length (orders mem_one_headphones) = 0"
    by code_simp+
  from order_array_bounds [OF small] ne sel len
  have a: "\<exists>st' ord. checkout_mem 1 mem_one_headphones = (None, st') \<and>
      orders st' = orders mem_one_headphones @ [ord] \<and> sint (orderId ord) = 1"
    by force
  from repeated_checkouts [OF wf_mem_initial _ sel, of 100 headphones 1] obtain st1 where
    st1: "run_ops (concat (replicate 100 [AddProduct headphones 1, Checkout 1])) initial_mem = Inr st1"
      "wf_mem st1" "length (orders st1) = 100"
    by (auto simp: initial_mem_def orders_capacity_def)
  from st1(2) have "wf_store (mem_store st1)" by (simp add: wf_mem_def)
  from addProduct_not_empty [OF this, of headphones 1] obtain s where
    s: "addProduct headphones 1 (mem_store st1) = Inr s" "\<not> isEmpty s" by blast
  let ?st = "st1\<lparr>mem_store := s\<rparr>"
  have run: "run_ops (concat (replicate 100 [AddProduct headphones 1, Checkout 1]) @
                  [AddProduct headphones 1]) initial_mem = Inr ?st"
    by (simp add: run_ops_append st1(1) and_then_def s(1))
  from order_array_bounds [OF run] s(2) sel st1(3)
  have "fst (checkout_mem 1 ?st) = Some ArrayIndexOutOfBounds" by force
  with run s(2) st1(3) have b: "\<exists>st. run_ops (concat (replicate 100 [AddProduct headphones 1, Checkout 1]) @
                  [AddProduct headphones 1]) initial_mem = Inr st \<and>
      \<not> isEmpty (mem_store st) \<and> length (orders st) = 100 \<and>
      fst (checkout_mem 1 st) = Some ArrayIndexOutOfBounds"
    by (intro exI [of _ ?st]) simp
  from small ne sel len a b show ?thesis by simp
qed

section \<open>Properties of the checkout into the log file\<close>

lemma cart_contents_alloc:
  "\<forall>a \<in> set xs. deref h a \<noteq> None \<Longrightarrow>
   cart_contents h xs = Inr (concat (map item_line (List.map_filter (deref h) xs)))"
  by (induction xs) (auto simp: List.map_filter_simps)

lemma getCartContents_lines:
  assumes "wf_store s"
  shows "getCartContents s = Inr (concat (map item_line (cart_lines s)))"
proof -
  from assms have alloc: "\<forall>a \<in> set (getItems (cart s)). deref (heap s) a \<noteq> None"
    by (simp add: wf_store_def)
  show ?thesis
    using cart_contents_alloc [OF alloc]
    by (simp add: getCartContents_def getItemCount_def cart_lines_def List.map_filter_simps)
qed

lemma checkout_file_empty:
  "isEmpty (file_store st) \<Longrightarrow> checkout_file now can_open pc st = (Inl EmptyCartException, st)"
  by (simp add: checkout_file_def isEmpty_def getTotalAmount_def Let_def)

lemma checkout_file_ok:
  assumes "wf_store (file_store st)" "\<not> isEmpty (file_store st)" "select_strategy pc = Some m"
  shows "\<exists>s tot. getTotalAmount (file_store st) = Inr tot \<and> wf_store s \<and> isEmpty s \<and>
     checkout_file now can_open pc st =
       (Inr (''ORD'' @ to_string_int now, getMethodName m, tot),
        \<lparr>file_store = s,
         orders_log =
           (if can_open
            then Some ((case orders_log st of None \<Rightarrow> [] | Some old \<Rightarrow> old) @
                       order_block (''ORD'' @ to_string_int now) (getMethodName m)
                         (concat (map item_line (cart_lines (file_store st)))) tot)
            else orders_log st)\<rparr>)"
proof -
  let ?s = "file_store st"
  note tot = getTotalAmount_nonempty [OF assms(1,2)]
  note contents = getCartContents_lines [OF assms(1)]
  from clearCart_props [OF assms(1)] obtain s where
    s: "clearCart ?s = Inr s" "wf_store s" "getItems (cart s) = []" by blast
  then have e: "isEmpty s" by (simp add: isEmpty_def getItemCount_def)
  let ?tot = "foldl (\<lambda>t it. dadd t (getTotalPrice it)) 0 (cart_lines ?s)"
  let ?log = "Some ((case orders_log st of None \<Rightarrow> [] | Some old \<Rightarrow> old) @
                       order_block (''ORD'' @ to_string_int now) (getMethodName m)
                         (concat (map item_line (cart_lines ?s))) ?tot)"
  have "checkout_file now can_open pc st =
       (Inr (''ORD'' @ to_string_int now, getMethodName m, ?tot),
        (if can_open then st\<lparr>orders_log := ?log\<rparr> else st)\<lparr>file_store := s\<rparr>)"
    by (simp add: checkout_file_def Let_def tot contents assms(3) s(1))
  moreover have "(if can_open then st\<lparr>orders_log := ?log\<rparr> else st)\<lparr>file_store := s\<rparr> =
        \<lparr>file_store = s, orders_log = (if can_open then ?log else orders_log st)\<rparr>"
    by (cases st) simp
  ultimately have "checkout_file now can_open pc st =
       (Inr (''ORD'' @ to_string_int now, getMethodName m, ?tot),
        \<lparr>file_store = s, orders_log = (if can_open then ?log else orders_log st)\<rparr>)"
    by simp
  with tot s(2) e show ?thesis by blast
qed


text \<open>
  The characters of the numbers the program writes: no number holds a newline or an
  opening square bracket.
\<close>

lemma digits_of_chars: "set (digits_of n) \<subseteq> set ''0123456789''"
proof (induction n rule: digits_of.induct)
  case (1 n)
  have d: "\<And>k. k < 10 \<Longrightarrow> ''0123456789'' ! k \<in> set ''0123456789''"
    by (rule nth_mem) simp
  show ?case
  proof (cases "n < 10")
    case True
    then have "nat n < 10" by simp
    from d [OF this] True show ?thesis by (subst digits_of.simps) simp
  next
    case False
    have "nat (n mod 10) < 10" by simp
    from d [OF this] 1 [OF False] False show ?thesis by (subst digits_of.simps) simp
  qed
qed

lemma digits_of_plain: "c \<in> set (digits_of n) \<Longrightarrow> c \<noteq> CHR ''['' \<and> c \<noteq> CHR 0x0A"
  using digits_of_chars [of n] by auto

lemma to_string_int_plain: "c \<in> set (to_string_int n) \<Longrightarrow> c \<noteq> CHR ''['' \<and> c \<noteq> CHR 0x0A"
  by (auto simp: to_string_int_def dest: digits_of_plain split: if_splits)

lemma pad_left_plain:
  "c \<in> set (pad_left w ds) \<Longrightarrow> c = CHR ''0'' \<or> c \<in> set ds"
  by (auto simp: pad_left_def)

lemma to_string_double_plain:
  "c \<in> set (to_string_double x) \<Longrightarrow> c \<noteq> CHR ''['' \<and> c \<noteq> CHR 0x0A"
  by (auto simp: to_string_double_def Let_def dest!: pad_left_plain dest: digits_of_plain
      split: if_splits)

lemma strip_zeros_chars: "set (strip_zeros ds) \<subseteq> set ds"
  by (auto simp: strip_zeros_def dest: set_dropWhileD)

lemma with_fraction_plain:
  "c \<in> set (with_fraction ip fp) \<Longrightarrow> c = CHR ''.'' \<or> c \<in> set ip \<or> c \<in> set fp"
  using strip_zeros_chars [of fp] by (auto simp: with_fraction_def Let_def split: if_splits)

lemma stream_double_plain:
  "c \<in> set (stream_double x) \<Longrightarrow> c \<noteq> CHR ''['' \<and> c \<noteq> CHR 0x0A"
  by (auto simp: stream_double_def Let_def dest!: with_fraction_plain pad_left_plain
      dest: digits_of_plain split: if_splits)

text \<open>
  Reading lines: a text that ends with a newline splits from what follows it, a line
  without a newline is read whole, and the characters of the lines read are characters of
  the text. A line without an opening square bracket does not hold the marker.
\<close>

lemma getlines_closed:
  "xs \<noteq> [] \<Longrightarrow> last xs = CHR 0x0A \<Longrightarrow> getlines cur (xs @ ys) = getlines cur xs @ getlines [] ys"
proof (induction xs arbitrary: cur)
  case Nil
  then show ?case by simp
next
  case (Cons c xs)
  show ?case
  proof (cases "xs = []")
    case True
    with Cons.prems show ?thesis by simp
  next
    case False
    with Cons.prems have "last xs = CHR 0x0A" by simp
    from Cons.IH [OF False this] show ?thesis by simp
  qed
qed

lemma getlines_line:
  "CHR 0x0A \<notin> set line \<Longrightarrow>
   getlines cur (line @ CHR 0x0A # rest) = (cur @ line) # getlines [] rest"
  by (induction line arbitrary: cur) auto

lemma getlines_chars: "l \<in> set (getlines cur s) \<Longrightarrow> set l \<subseteq> set cur \<union> set s"
  by (induction cur s rule: getlines.induct) (auto split: if_splits)

lemma find_at_absent: "pat \<noteq> [] \<Longrightarrow> hd pat \<notin> set s \<Longrightarrow> find_at pat s i = npos"
proof (induction s arbitrary: i)
  case Nil
  then show ?case by simp
next
  case (Cons c s)
  from Cons.prems have "take (length pat) (c # s) \<noteq> pat"
    by (cases pat) auto
  with Cons show ?case by simp
qed

lemma str_find_marker_absent: "CHR ''['' \<notin> set line \<Longrightarrow> str_find line marker 0 = npos"
  using find_at_absent [of marker line 0] by (simp add: str_find_def marker_def)

lemma str_find_marker_prefix: "str_find (marker @ rest) marker 0 \<noteq> npos"
  by (simp add: str_find_def marker_def npos_def)

lemma item_line_plain:
  assumes "CHR ''['' \<notin> set (getName (getProduct it))"
  shows "CHR ''['' \<notin> set (item_line it)"
  using assms to_string_int_plain to_string_double_plain
  by (auto simp: item_line_def tab_def)

lemma contents_plain:
  "list_all (\<lambda>it. CHR ''['' \<notin> set (getName (getProduct it))) ls \<Longrightarrow>
   CHR ''['' \<notin> set (concat (map item_line ls))"
  using item_line_plain by (induction ls) auto

lemma getMethodName_plain: "CHR 0x0A \<notin> set (getMethodName m)"
  by (cases m) simp_all

lemma header_lines_append:
  assumes "log_closed logFile" "CHR 0x0A \<notin> set rest" "CHR ''['' \<notin> set body"
  shows "header_lines (Some ((case logFile of None \<Rightarrow> [] | Some old \<Rightarrow> old) @
             (marker @ rest) @ CHR 0x0A # body)) =
         header_lines logFile @ [marker @ rest]"
proof -
  let ?old = "case logFile of None \<Rightarrow> [] | Some old \<Rightarrow> old"
  have nl: "CHR 0x0A \<notin> set (marker @ rest)" using assms(2) by (simp add: marker_def)
  have block: "getlines [] ((marker @ rest) @ CHR 0x0A # body) = (marker @ rest) # getlines [] body"
    using getlines_line [OF nl, of "[]" body] by simp
  have none: "filter (\<lambda>line. str_find line marker 0 \<noteq> npos) (getlines [] body) = []"
  proof -
    have "\<forall>l \<in> set (getlines [] body). str_find l marker 0 = npos"
    proof
      fix l assume "l \<in> set (getlines [] body)"
      from getlines_chars [OF this] assms(3) have "CHR ''['' \<notin> set l" by auto
      then show "str_find l marker 0 = npos" by (rule str_find_marker_absent)
    qed
    then show ?thesis by (simp add: filter_empty_conv)
  qed
  have split: "getlines [] (?old @ (marker @ rest) @ CHR 0x0A # body) =
      getlines [] ?old @ getlines [] ((marker @ rest) @ CHR 0x0A # body)"
  proof (cases "?old = []")
    case True
    then show ?thesis by simp
  next
    case False
    with assms(1) have "last ?old = CHR 0x0A"
      by (auto simp: log_closed_def split: option.splits)
    from getlines_closed [OF False this] show ?thesis .
  qed
  have old: "filter (\<lambda>line. str_find line marker 0 \<noteq> npos) (getlines [] ?old) = header_lines logFile"
    by (simp add: header_lines_def split: option.splits)
  have "header_lines (Some (?old @ (marker @ rest) @ CHR 0x0A # body)) =
      filter (\<lambda>line. str_find line marker 0 \<noteq> npos) (getlines [] ?old) @
      filter (\<lambda>line. str_find line marker 0 \<noteq> npos) ((marker @ rest) # getlines [] body)"
    unfolding header_lines_def option.case split block filter_append ..
  also have "\<dots> = header_lines logFile @ [marker @ rest]"
    using str_find_marker_prefix [of rest] by (simp add: old none)
  finally show ?thesis .
qed

lemma products_plain: "p \<in> set products \<Longrightarrow> CHR ''['' \<notin> set (getName p)"
  by (auto simp: products_def)

text \<open>
  The checkout with the text it writes spelled out, and the header lines of the log after
  it.
\<close>

lemma checkout_file_written:
  assumes "wf_store (file_store ft)" "\<not> isEmpty (file_store ft)" "select_strategy pc = Some m"
  shows "\<exists>ft' tot. checkout_file now can_open pc ft =
           (Inr (''ORD'' @ to_string_int now, getMethodName m, tot), ft') \<and>
         getTotalAmount (file_store ft) = Inr tot \<and> isEmpty (file_store ft') \<and>
         (can_open \<longrightarrow>
            orders_log ft' =
              Some ((case orders_log ft of None \<Rightarrow> [] | Some old \<Rightarrow> old) @
                ''[LOG] -> Order ID: '' @ ''ORD'' @ to_string_int now @
                '' has been successfully checked out and paid using '' @ getMethodName m @
                ''.\<newline>'' @
                concat (map (\<lambda>it. to_string_int (sint (getId (getProduct it))) @ [CHR 0x09] @
                                  getName (getProduct it) @ [CHR 0x09] @
                                  to_string_double (getPrice (getProduct it)) @ [CHR 0x09] @
                                  to_string_int (sint (getQuantity it)) @ ''\<newline>'')
                          (cart_lines (file_store ft))) @
                ''Total Amount: $'' @ stream_double tot @ ''\<newline>\<newline>'')) \<and>
         (\<not> can_open \<longrightarrow> orders_log ft' = orders_log ft)"
proof -
  from checkout_file_ok [OF assms, of now can_open] obtain s tot where
    r: "getTotalAmount (file_store ft) = Inr tot" "isEmpty s"
    "checkout_file now can_open pc ft =
       (Inr (''ORD'' @ to_string_int now, getMethodName m, tot),
        \<lparr>file_store = s,
         orders_log =
           (if can_open
            then Some ((case orders_log ft of None \<Rightarrow> [] | Some old \<Rightarrow> old) @
                       order_block (''ORD'' @ to_string_int now) (getMethodName m)
                         (concat (map item_line (cart_lines (file_store ft)))) tot)
            else orders_log ft)\<rparr>)"
    by blast
  have il: "item_line = (\<lambda>it. to_string_int (sint (getId (getProduct it))) @ [CHR 0x09] @
                                     getName (getProduct it) @ [CHR 0x09] @
                                     to_string_double (getPrice (getProduct it)) @ [CHR 0x09] @
                                     to_string_int (sint (getQuantity it)) @ ''\<newline>'')"
    by (rule ext) (simp add: item_line_def tab_def)
  show ?thesis
    unfolding r(3) il [symmetric]
    using r(1,2) by (simp add: order_block_def)
qed

lemma checkout_file_headers:
  assumes "wf_store (file_store ft)" "\<not> isEmpty (file_store ft)" "select_strategy pc = Some m"
    and "log_closed (orders_log ft)" "plain_names (file_store ft)"
  shows "header_lines (orders_log (snd (checkout_file now True pc ft))) =
         header_lines (orders_log ft) @
         [''[LOG] -> Order ID: ORD'' @ to_string_int now @
          '' has been successfully checked out and paid using '' @ getMethodName m @ ''.'']"
proof -
  from checkout_file_ok [OF assms(1-3), of now True] obtain s tot where
    r: "checkout_file now True pc ft =
       (Inr (''ORD'' @ to_string_int now, getMethodName m, tot),
        \<lparr>file_store = s,
         orders_log =
            Some ((case orders_log ft of None \<Rightarrow> [] | Some old \<Rightarrow> old) @
                       order_block (''ORD'' @ to_string_int now) (getMethodName m)
                         (concat (map item_line (cart_lines (file_store ft)))) tot)\<rparr>)"
    by auto
  let ?rest = "''ORD'' @ to_string_int now @
          '' has been successfully checked out and paid using '' @ getMethodName m @ ''.''"
  let ?body = "concat (map item_line (cart_lines (file_store ft))) @
                   ''Total Amount: $'' @ stream_double tot @ ''\<newline>\<newline>''"
  have nl: "CHR 0x0A \<notin> set ?rest"
    using to_string_int_plain [of "CHR 0x0A" now] getMethodName_plain [of m] by auto
  have br: "CHR ''['' \<notin> set ?body"
    using contents_plain [of "cart_lines (file_store ft)"] assms(5)
      stream_double_plain [of "CHR ''[''" tot]
    by (auto simp: plain_names_def)
  have "order_block (''ORD'' @ to_string_int now) (getMethodName m)
          (concat (map item_line (cart_lines (file_store ft)))) tot =
        (marker @ ?rest) @ CHR 0x0A # ?body"
    by (simp add: order_block_def marker_def)
  with header_lines_append [OF assms(4) nl br] r
  show ?thesis by (simp add: marker_def)
qed

text \<open>
  In every state a run of catalog operations reaches from a well-formed store with plain
  names and a closed log, the store is well formed, its names are plain and the log is
  closed; so it is in every state such a run reaches from the start of the program.
\<close>

lemma add_line_plain:
  "list_all (\<lambda>it. CHR ''['' \<notin> set (getName (getProduct it))) ls \<Longrightarrow>
   CHR ''['' \<notin> set (getName p) \<Longrightarrow>
   list_all (\<lambda>it. CHR ''['' \<notin> set (getName (getProduct it))) (add_line p q ls)"
  by (induction ls) (auto simp: setQuantity_def)

lemma isEmpty_lines: "isEmpty s \<Longrightarrow> cart_lines s = []"
  by (simp add: isEmpty_def getItemCount_def cart_lines_def List.map_filter_simps)

lemma step_file_props:
  assumes "step_file x st = Inr st'" "catalog_op x" "wf_store (file_store st)"
    "log_closed (orders_log st)" "plain_names (file_store st)"
  shows "wf_store (file_store st') \<and> log_closed (orders_log st') \<and> plain_names (file_store st')"
proof (cases x)
  case (FileAdd p q)
  from addProduct_refines [OF assms(3), of p q] obtain s' where
    s': "addProduct p q (file_store st) = Inr s'" "wf_store s'"
      "cart_lines s' = add_line p q (cart_lines (file_store st))" by blast
  from assms(2) FileAdd have "CHR ''['' \<notin> set (getName p)" by (simp add: products_plain)
  from add_line_plain [OF _ this, of "cart_lines (file_store st)" q] assms(5) s'(3)
  have "plain_names s'" by (simp add: plain_names_def)
  with s'(1,2) assms(1,4) FileAdd show ?thesis by auto
next
  case (FileCheckout now can_open pc)
  show ?thesis
  proof (cases "isEmpty (file_store st)")
    case True
    from checkout_file_empty [OF True] assms(1) FileCheckout show ?thesis by simp
  next
    case False
    note tot = getTotalAmount_nonempty [OF assms(3) False]
    show ?thesis
    proof (cases "select_strategy pc")
      case None
      with tot have "checkout_file now can_open pc st = (Inl NullPointerDereference, st)"
        by (simp add: checkout_file_def)
      with assms(1) FileCheckout show ?thesis by simp
    next
      case (Some m)
      from checkout_file_ok [OF assms(3) False Some, of now can_open] obtain s tot where
        s: "wf_store s" "isEmpty s"
        and r: "checkout_file now can_open pc st =
          (Inr (''ORD'' @ to_string_int now, getMethodName m, tot),
           \<lparr>file_store = s,
            orders_log =
              (if can_open
               then Some ((case orders_log st of None \<Rightarrow> [] | Some old \<Rightarrow> old) @
                       order_block (''ORD'' @ to_string_int now) (getMethodName m)
                         (concat (map item_line (cart_lines (file_store st)))) tot)
               else orders_log st)\<rparr>)"
        by blast
      from r assms(1) FileCheckout have st': "st' =
           \<lparr>file_store = s,
            orders_log =
              (if can_open
               then Some ((case orders_log st of None \<Rightarrow> [] | Some old \<Rightarrow> old) @
                       order_block (''ORD'' @ to_string_int now) (getMethodName m)
                         (concat (map item_line (cart_lines (file_store st)))) tot)
               else orders_log st)\<rparr>"
        by simp
      show ?thesis
        unfolding st' using s assms(4) isEmpty_lines [OF s(2)]
        by (simp add: log_closed_def order_block_def plain_names_def)
    qed
  qed
qed

lemma run_file_props:
  "run_file ops st = Inr st' \<Longrightarrow> list_all catalog_op ops \<Longrightarrow> wf_store (file_store st) \<Longrightarrow>
   log_closed (orders_log st) \<Longrightarrow> plain_names (file_store st) \<Longrightarrow>
   wf_store (file_store st') \<and> log_closed (orders_log st') \<and> plain_names (file_store st')"
proof (induction ops arbitrary: st)
  case Nil
  then show ?case by simp
next
  case (Cons x ops)
  from Cons.prems(1) obtain st1 where
    st1: "step_file x st = Inr st1" "run_file ops st1 = Inr st'"
    by (auto simp: and_then_def split: sum.splits)
  from Cons.prems(2) have c: "catalog_op x" "list_all catalog_op ops" by simp_all
  from step_file_props [OF st1(1) c(1) Cons.prems(3,4,5)] Cons.IH [OF st1(2) c(2)]
  show ?case by blast
qed

lemma initial_file_props:
  "wf_store (file_store initial_file) \<and> log_closed (orders_log initial_file) \<and>
   plain_names (file_store initial_file)"
  by (simp add: initial_file_def initial_store_def getInstance_def wf_store_def log_closed_def
      cart_lines_def List.map_filter_simps getItemCount_def plain_names_def)

lemma reached_file_props:
  assumes "run_file ops initial_file = Inr st" "list_all catalog_op ops"
  shows "wf_store (file_store st) \<and> log_closed (orders_log st) \<and> plain_names (file_store st)"
  using run_file_props [OF assms] initial_file_props by blast

section \<open>Checkout on a cart with lines\<close>

text \<open>
  Claim C1, as amended. Let the cart have at least one line and the payment choice be
  one of 1, 2, 3. In the variant with the order array, when fewer than 100 orders are
  stored, the checkout appends exactly one order to the array, leaves the cart empty, and
  the order records the total \<^verbatim>\<open>getTotalAmount\<close> returned before the checkout. In the
  variant with the log file the checkout reports that total and leaves the cart empty;
  when the file can be opened, the log after the checkout is the log before followed by
  exactly one order block: the header line with the order id and the payment method, one
  line for each line the cart had, the total line and an empty line. The total line is
  \<^verbatim>\<open>Total Amount: $\<close> followed by the total as the stream writes a double by default.
  When moreover the log was closed and the names of the cart are plain, the header lines
  of the log after the checkout are those before and the header line of the new block.
\<close>

theorem checkout_appends_one_order:
  "(wf_mem st \<and> \<not> isEmpty (mem_store st) \<and> select_strategy pc = Some m \<and>
    length (orders st) < 100 \<longrightarrow>
      (\<exists>st' ord. checkout_mem pc st = (None, st') \<and> orders st' = orders st @ [ord] \<and>
         isEmpty (mem_store st') \<and> getTotalAmount (mem_store st) = Inr (totalAmount ord))) \<and>
   (wf_store (file_store ft) \<and> \<not> isEmpty (file_store ft) \<and> select_strategy pc = Some m \<longrightarrow>
      (\<exists>ft' tot. checkout_file now can_open pc ft =
           (Inr (''ORD'' @ to_string_int now, getMethodName m, tot), ft') \<and>
         getTotalAmount (file_store ft) = Inr tot \<and>
         isEmpty (file_store ft') \<and>
         (can_open \<longrightarrow>
            orders_log ft' =
              Some ((case orders_log ft of None \<Rightarrow> [] | Some old \<Rightarrow> old) @
                ''[LOG] -> Order ID: '' @ ''ORD'' @ to_string_int now @
                '' has been successfully checked out and paid using '' @ getMethodName m @
                ''.\<newline>'' @
                concat (map (\<lambda>it. to_string_int (sint (getId (getProduct it))) @ [CHR 0x09] @
                                  getName (getProduct it) @ [CHR 0x09] @
                                  to_string_double (getPrice (getProduct it)) @ [CHR 0x09] @
                                  to_string_int (sint (getQuantity it)) @ ''\<newline>'')
                          (cart_lines (file_store ft))) @
                ''Total Amount: $'' @ stream_double tot @ ''\<newline>\<newline>'') \<and>
            (log_closed (orders_log ft) \<and> plain_names (file_store ft) \<longrightarrow>
               header_lines (orders_log ft') =
                 header_lines (orders_log ft) @
                 [''[LOG] -> Order ID: ORD'' @ to_string_int now @
                  '' has been successfully checked out and paid using '' @
                  getMethodName m @ ''.'']))))"
  (is "(?mh \<longrightarrow> ?mc) \<and>
       (?fh \<longrightarrow> (\<exists>ft' tot. ?R ft' tot \<and> ?T tot \<and> ?E ft' \<and>
                     (_ \<longrightarrow> ?L ft' tot \<and> (?I \<longrightarrow> ?H ft'))))")
proof (intro conjI impI)
  assume a: ?mh
  then have "length (orders st) < orders_capacity" by (simp add: orders_capacity_def)
  from checkout_mem_ok [OF _ _ _ this, of pc m] a show ?mc by blast
next
  assume ?fh
  then have w: "wf_store (file_store ft)" and n: "\<not> isEmpty (file_store ft)"
    and s: "select_strategy pc = Some m" by simp_all
  from checkout_file_written [OF w n s, of now can_open] obtain ft' tot where
    r: "?R ft' tot" "?T tot" "?E ft'" and l: "can_open \<longrightarrow> ?L ft' tot"
    by blast
  have "?H ft'" if "can_open" ?I
    using checkout_file_headers [OF w n s, of now] r(1) that by simp
  with r l show "\<exists>ft' tot. ?R ft' tot \<and> ?T tot \<and> ?E ft' \<and>
      (can_open \<longrightarrow> ?L ft' tot \<and> (?I \<longrightarrow> ?H ft'))"
    by blast
qed


theorem checkout_appends_one_order_witness:
  "wf_mem mem_two_headphones \<and> \<not> isEmpty (mem_store mem_two_headphones) \<and>
   select_strategy 1 = Some CashPayment \<and> length (orders mem_two_headphones) < 100 \<and>
   (\<exists>st' ord. checkout_mem 1 mem_two_headphones = (None, st') \<and>
      orders st' = orders mem_two_headphones @ [ord] \<and> isEmpty (mem_store st') \<and>
      getTotalAmount (mem_store mem_two_headphones) = Inr (totalAmount ord)) \<and>
   run_file [FileAdd headphones 1, FileAdd headphones 1, FileCheckout 1700000000 True 1,
             FileAdd laptop 1] initial_file = Inr file_second_laptop \<and>
   wf_store (file_store file_second_laptop) \<and> \<not> isEmpty (file_store file_second_laptop) \<and>
   log_closed (orders_log file_second_laptop) \<and> plain_names (file_store file_second_laptop) \<and>
   (\<exists>ft'. checkout_file 1700000060 True 1 file_second_laptop =
        (Inr (''ORD1700000060'', ''Cash'', getPrice laptop), ft') \<and>
      getTotalAmount (file_store file_second_laptop) = Inr (getPrice laptop) \<and>
      isEmpty (file_store ft') \<and>
      orders_log ft' = Some (
        ''[LOG] -> Order ID: ORD1700000000 has been successfully checked out and paid using Cash.\<newline>'' @
        ''3'' @ [CHR 0x09] @ ''Headphones'' @ [CHR 0x09] @ ''99.990000'' @ [CHR 0x09] @ ''2\<newline>'' @
        ''Total Amount: $199.98\<newline>\<newline>'' @
        ''[LOG] -> Order ID: ORD1700000060 has been successfully checked out and paid using Cash.\<newline>'' @
        ''1'' @ [CHR 0x09] @ ''Laptop'' @ [CHR 0x09] @ ''999.990000'' @ [CHR 0x09] @ ''1\<newline>'' @
        ''Total Amount: $999.99\<newline>\<newline>'') \<and>
      header_lines (orders_log ft') =
        [''[LOG] -> Order ID: ORD1700000000 has been successfully checked out and paid using Cash.'',
         ''[LOG] -> Order ID: ORD1700000060 has been successfully checked out and paid using Cash.''])"
proof -
  have m: "wf_mem mem_two_headphones" "\<not> isEmpty (mem_store mem_two_headphones)"
    "length (orders mem_two_headphones) < 100"
    by code_simp+
  have f: "wf_store (file_store file_second_laptop)" "\<not> isEmpty (file_store file_second_laptop)"
    "log_closed (orders_log file_second_laptop)" "plain_names (file_store file_second_laptop)"
    by code_simp+
  have reached: "run_file [FileAdd headphones 1, FileAdd headphones 1,
      FileCheckout 1700000000 True 1, FileAdd laptop 1] initial_file = Inr file_second_laptop"
    by code_simp
  have sel: "select_strategy 1 = Some CashPayment" by (simp add: select_strategy_def)
  have oid: "to_string_int 1700000060 = ''1700000060''" by code_simp
  have tv: "getTotalAmount (file_store file_second_laptop) = Inr (getPrice laptop)" by code_simp
  have sd: "stream_double (getPrice laptop) = ''999.99''" by code_simp
  have items: "concat (map (\<lambda>it. to_string_int (sint (getId (getProduct it))) @ [CHR 0x09] @
                                  getName (getProduct it) @ [CHR 0x09] @
                                  to_string_double (getPrice (getProduct it)) @ [CHR 0x09] @
                                  to_string_int (sint (getQuantity it)) @ ''\<newline>'')
                          (cart_lines (file_store file_second_laptop))) =
      ''1'' @ [CHR 0x09] @ ''Laptop'' @ [CHR 0x09] @ ''999.990000'' @ [CHR 0x09] @ ''1\<newline>''"
    by code_simp
  have hl: "header_lines (orders_log file_second_laptop) =
      [''[LOG] -> Order ID: ORD1700000000 has been successfully checked out and paid using Cash.'']"
    by code_simp
  have old: "orders_log file_second_laptop = Some (
        ''[LOG] -> Order ID: ORD1700000000 has been successfully checked out and paid using Cash.\<newline>'' @
        ''3'' @ [CHR 0x09] @ ''Headphones'' @ [CHR 0x09] @ ''99.990000'' @ [CHR 0x09] @ ''2\<newline>'' @
        ''Total Amount: $199.98\<newline>\<newline>'')"
    by (simp add: file_second_laptop_def)
  note t = checkout_appends_one_order [of mem_two_headphones 1 CashPayment file_second_laptop
      1700000060 True]
  from t m sel have a: "\<exists>st' ord. checkout_mem 1 mem_two_headphones = (None, st') \<and>
      orders st' = orders mem_two_headphones @ [ord] \<and> isEmpty (mem_store st') \<and>
      getTotalAmount (mem_store mem_two_headphones) = Inr (totalAmount ord)"
    by blast
  from t f sel obtain ft' tot where
    r: "checkout_file 1700000060 True 1 file_second_laptop =
           (Inr (''ORD'' @ to_string_int 1700000060, getMethodName CashPayment, tot), ft')"
      "getTotalAmount (file_store file_second_laptop) = Inr tot" "isEmpty (file_store ft')"
    and l: "orders_log ft' =
              Some ((case orders_log file_second_laptop of None \<Rightarrow> [] | Some old \<Rightarrow> old) @
                ''[LOG] -> Order ID: '' @ ''ORD'' @ to_string_int 1700000060 @
                '' has been successfully checked out and paid using '' @ getMethodName CashPayment @
                ''.\<newline>'' @
                concat (map (\<lambda>it. to_string_int (sint (getId (getProduct it))) @ [CHR 0x09] @
                                  getName (getProduct it) @ [CHR 0x09] @
                                  to_string_double (getPrice (getProduct it)) @ [CHR 0x09] @
                                  to_string_int (sint (getQuantity it)) @ ''\<newline>'')
                          (cart_lines (file_store file_second_laptop))) @
                ''Total Amount: $'' @ stream_double tot @ ''\<newline>\<newline>'')"
    and h: "header_lines (orders_log ft') =
                 header_lines (orders_log file_second_laptop) @
                 [''[LOG] -> Order ID: ORD'' @ to_string_int 1700000060 @
                  '' has been successfully checked out and paid using '' @
                  getMethodName CashPayment @ ''.'']"
    by blast
  from r(2) tv have tot: "tot = getPrice laptop" by simp
  have b: "\<exists>ft'. checkout_file 1700000060 True 1 file_second_laptop =
        (Inr (''ORD1700000060'', ''Cash'', getPrice laptop), ft') \<and>
      getTotalAmount (file_store file_second_laptop) = Inr (getPrice laptop) \<and>
      isEmpty (file_store ft') \<and>
      orders_log ft' = Some (
        ''[LOG] -> Order ID: ORD1700000000 has been successfully checked out and paid using Cash.\<newline>'' @
        ''3'' @ [CHR 0x09] @ ''Headphones'' @ [CHR 0x09] @ ''99.990000'' @ [CHR 0x09] @ ''2\<newline>'' @
        ''Total Amount: $199.98\<newline>\<newline>'' @
        ''[LOG] -> Order ID: ORD1700000060 has been successfully checked out and paid using Cash.\<newline>'' @
        ''1'' @ [CHR 0x09] @ ''Laptop'' @ [CHR 0x09] @ ''999.990000'' @ [CHR 0x09] @ ''1\<newline>'' @
        ''Total Amount: $999.99\<newline>\<newline>'') \<and>
      header_lines (orders_log ft') =
        [''[LOG] -> Order ID: ORD1700000000 has been successfully checked out and paid using Cash.'',
         ''[LOG] -> Order ID: ORD1700000060 has been successfully checked out and paid using Cash.'']"
    using r l [unfolded tot items sd oid old] h [unfolded hl oid]
    by (intro exI [of _ ft']) (simp add: tot oid)
  from m reached f sel a b show ?thesis by (intro conjI)
qed


text \<open>
  Claim C1 as stated promises, for every cart with a line, a new entry, an empty cart and
  the total in the entry. With one laptop in the cart and a log file that cannot be
  opened, the checkout reports the order id, the method and the total as for a success
  and the log is what it was. With 100 orders in the array and one headphones in the
  cart, the checkout stores outside the array; the run stops there, the orders as they
  were and the cart not cleared. After ten laptops and one mouse the total is the double
  nearest to 10019.89, and the total line written is \<^verbatim>\<open>Total Amount: $10019.9\<close>, which
  is also the text of the double nearest to 10019.9, another number. With the payment
  choice 4 the variant with the order array calls \<^verbatim>\<open>pay\<close> through a null pointer.
\<close>

theorem checkout_appends_one_order_counterexample:
  "\<not> isEmpty (file_store file_one_laptop) \<and>
   fst (checkout_file 1700000060 False 2 file_one_laptop) =
     Inr (''ORD1700000060'', ''Credit/Debit Card'', getPrice laptop) \<and>
   orders_log (snd (checkout_file 1700000060 False 2 file_one_laptop)) =
     orders_log file_one_laptop \<and>
   \<not> isEmpty (mem_store mem_full) \<and> length (orders mem_full) = 100 \<and>
   fst (checkout_mem 1 mem_full) = Some ArrayIndexOutOfBounds \<and>
   orders (snd (checkout_mem 1 mem_full)) = orders mem_full \<and>
   \<not> isEmpty (mem_store (snd (checkout_mem 1 mem_full))) \<and>
   total_after ten_laptops_mouse = Inr (literal (1001989 / 100)) \<and>
   literal (1001989 / 100) = 688561597752279 / 68719476736 \<and>
   log_after (ten_laptops_mouse @ [FileCheckout 1700000120 True 3]) =
     Inr [''[LOG] -> Order ID: ORD1700000120 has been successfully checked out and paid using GCash.'',
          ''1'' @ [CHR 0x09] @ ''Laptop'' @ [CHR 0x09] @ ''999.990000'' @ [CHR 0x09] @ ''10'',
          ''4'' @ [CHR 0x09] @ ''Mouse'' @ [CHR 0x09] @ ''19.990000'' @ [CHR 0x09] @ ''1'',
          ''Total Amount: $10019.9'',
          []] \<and>
   stream_double (literal (100199 / 10)) = ''10019.9'' \<and>
   literal (100199 / 10) \<noteq> literal (1001989 / 100) \<and>
   \<not> isEmpty (mem_store mem_two_headphones) \<and>
   fst (checkout_mem 4 mem_two_headphones) = Some NullPointerDereference"
  by code_simp


section \<open>Checkout on an empty cart\<close>

text \<open>
  Claim C4. On an empty cart the checkout of either variant throws
  \<^verbatim>\<open>EmptyCartException\<close> from \<^verbatim>\<open>getTotalAmount\<close>, its first step, and the state is the
  state before: no order is stored, nothing is written to the log. The handler of the
  menu loop reports the exception with its message and the loop continues. The menu
  branch itself does not get that far: on an empty cart it reports that the cart is
  empty and leaves the state as it was.
\<close>

theorem checkout_empty_cart:
  "(isEmpty (mem_store st) \<longrightarrow>
      checkout_mem pc st = (Some EmptyCartException, st) \<and>
      main_choice2_mem c input st = (st, [Print ''Your shopping cart is empty.\<newline>''], Continue)) \<and>
   (isEmpty (file_store ft) \<longrightarrow>
      checkout_file now can_open pc ft = (Inl EmptyCartException, ft) \<and>
      main_choice2_file c input now can_open ft =
        (ft, [Print ''Your shopping cart is empty.\<newline>''], Continue)) \<and>
   catch_all EmptyCartException = ([Error ''Shopping cart is empty''], Continue)"
  by (simp add: checkout_mem_empty checkout_file_empty main_choice2_mem_def main_choice2_file_def
      displayCart_def isEmpty_def catch_all_def)


theorem checkout_empty_cart_witness:
  "isEmpty (mem_store initial_mem) \<and>
   checkout_mem 1 initial_mem = (Some EmptyCartException, initial_mem) \<and>
   main_choice2_mem CHR ''Y'' (Some 1) initial_mem =
     (initial_mem, [Print ''Your shopping cart is empty.\<newline>''], Continue) \<and>
   isEmpty (file_store initial_file) \<and>
   checkout_file 1700000000 True 1 initial_file = (Inl EmptyCartException, initial_file) \<and>
   main_choice2_file CHR ''Y'' (Some 1) 1700000000 True initial_file =
     (initial_file, [Print ''Your shopping cart is empty.\<newline>''], Continue)"
proof -
  have e: "isEmpty (mem_store initial_mem)" "isEmpty (file_store initial_file)"
    by (simp_all add: isEmpty_def initial_mem_def initial_file_def initial_store_def
        getInstance_def getItemCount_def)
  from checkout_empty_cart [of initial_mem 1 "CHR ''Y''" "Some 1" initial_file 1700000000 True] e
  show ?thesis by simp
qed


section \<open>A log file that cannot be opened\<close>

text \<open>
  Claim C5, as amended. In the variant with the log file, a checkout on a cart with
  lines and a payment choice from 1 to 3 always completes, reports the total
  \<^verbatim>\<open>getTotalAmount\<close> returned, and leaves the cart empty. When the log file can be
  opened, the log after the checkout is the log before followed by the order block: the
  header line with the order id and the payment method, one line with the id, the name,
  the price and the quantity of each line the cart had before the checkout, the total
  line and an empty line. When the file cannot be opened, the log is left as it was; no
  error is raised and the cart is cleared all the same.
\<close>

theorem checkout_file_log_and_cart:
  "wf_store (file_store ft) \<and> \<not> isEmpty (file_store ft) \<and> select_strategy pc = Some m \<longrightarrow>
     (\<exists>ft' tot. checkout_file now can_open pc ft =
          (Inr (''ORD'' @ to_string_int now, getMethodName m, tot), ft') \<and>
        getTotalAmount (file_store ft) = Inr tot \<and>
        isEmpty (file_store ft') \<and>
        (can_open \<longrightarrow>
           orders_log ft' =
             Some ((case orders_log ft of None \<Rightarrow> [] | Some old \<Rightarrow> old) @
               ''[LOG] -> Order ID: '' @ ''ORD'' @ to_string_int now @
               '' has been successfully checked out and paid using '' @ getMethodName m @
               ''.\<newline>'' @
               concat (map (\<lambda>it. to_string_int (sint (getId (getProduct it))) @ [CHR 0x09] @
                                 getName (getProduct it) @ [CHR 0x09] @
                                 to_string_double (getPrice (getProduct it)) @ [CHR 0x09] @
                                 to_string_int (sint (getQuantity it)) @ ''\<newline>'')
                         (cart_lines (file_store ft))) @
               ''Total Amount: $'' @ stream_double tot @ ''\<newline>\<newline>'')) \<and>
        (\<not> can_open \<longrightarrow> orders_log ft' = orders_log ft))"
  using checkout_file_written [of ft pc m now can_open] by blast


theorem checkout_file_log_and_cart_witness:
  "wf_store (file_store file_two_headphones) \<and> \<not> isEmpty (file_store file_two_headphones) \<and>
   select_strategy 1 = Some CashPayment \<and>
   (\<exists>ft'. checkout_file 1700000000 True 1 file_two_headphones =
        (Inr (''ORD1700000000'', ''Cash'', 2 * getPrice headphones), ft') \<and>
      isEmpty (file_store ft') \<and>
      orders_log ft' = Some (
        ''[LOG] -> Order ID: ORD1700000000 has been successfully checked out and paid using Cash.\<newline>'' @
        ''3'' @ [CHR 0x09] @ ''Headphones'' @ [CHR 0x09] @ ''99.990000'' @ [CHR 0x09] @ ''2\<newline>'' @
        ''Total Amount: $199.98\<newline>\<newline>'')) \<and>
   (\<exists>ft'. checkout_file 1700000000 False 1 file_two_headphones =
        (Inr (''ORD1700000000'', ''Cash'', 2 * getPrice headphones), ft') \<and>
      isEmpty (file_store ft') \<and> orders_log ft' = None)"
proof -
  have f: "wf_store (file_store file_two_headphones)" "\<not> isEmpty (file_store file_two_headphones)"
    by code_simp+
  have sel: "select_strategy 1 = Some CashPayment" by (simp add: select_strategy_def)
  have oid: "to_string_int 1700000000 = ''1700000000''" by code_simp
  have tv: "getTotalAmount (file_store file_two_headphones) = Inr (2 * getPrice headphones)"
    by code_simp
  have sd: "stream_double (2 * getPrice headphones) = ''199.98''" by code_simp
  have items: "concat (map (\<lambda>it. to_string_int (sint (getId (getProduct it))) @ [CHR 0x09] @
                                 getName (getProduct it) @ [CHR 0x09] @
                                 to_string_double (getPrice (getProduct it)) @ [CHR 0x09] @
                                 to_string_int (sint (getQuantity it)) @ ''\<newline>'')
                         (cart_lines (file_store file_two_headphones))) =
      ''3'' @ [CHR 0x09] @ ''Headphones'' @ [CHR 0x09] @ ''99.990000'' @ [CHR 0x09] @ ''2\<newline>''"
    by code_simp
  have log: "orders_log file_two_headphones = None" by (simp add: file_two_headphones_def)
  from checkout_file_log_and_cart [of file_two_headphones 1 CashPayment 1700000000 True] f sel
  obtain ft' tot where
    r: "checkout_file 1700000000 True 1 file_two_headphones =
          (Inr (''ORD'' @ to_string_int 1700000000, getMethodName CashPayment, tot), ft')"
       "getTotalAmount (file_store file_two_headphones) = Inr tot" "isEmpty (file_store ft')"
    and l: "orders_log ft' =
             Some ((case orders_log file_two_headphones of None \<Rightarrow> [] | Some old \<Rightarrow> old) @
               ''[LOG] -> Order ID: '' @ ''ORD'' @ to_string_int 1700000000 @
               '' has been successfully checked out and paid using '' @ getMethodName CashPayment @
               ''.\<newline>'' @
               concat (map (\<lambda>it. to_string_int (sint (getId (getProduct it))) @ [CHR 0x09] @
                                 getName (getProduct it) @ [CHR 0x09] @
                                 to_string_double (getPrice (getProduct it)) @ [CHR 0x09] @
                                 to_string_int (sint (getQuantity it)) @ ''\<newline>'')
                         (cart_lines (file_store file_two_headphones))) @
               ''Total Amount: $'' @ stream_double tot @ ''\<newline>\<newline>'')"
    by blast
  from r(2) tv have tot: "tot = 2 * getPrice headphones" by simp
  have a: "\<exists>ft'. checkout_file 1700000000 True 1 file_two_headphones =
        (Inr (''ORD1700000000'', ''Cash'', 2 * getPrice headphones), ft') \<and>
      isEmpty (file_store ft') \<and>
      orders_log ft' = Some (
        ''[LOG] -> Order ID: ORD1700000000 has been successfully checked out and paid using Cash.\<newline>'' @
        ''3'' @ [CHR 0x09] @ ''Headphones'' @ [CHR 0x09] @ ''99.990000'' @ [CHR 0x09] @ ''2\<newline>'' @
        ''Total Amount: $199.98\<newline>\<newline>'')"
    using r l [unfolded tot items sd oid log]
    by (intro exI [of _ ft']) (simp add: tot oid)
  from checkout_file_log_and_cart [of file_two_headphones 1 CashPayment 1700000000 False] f sel
  obtain ft2 tot2 where
    r2: "checkout_file 1700000000 False 1 file_two_headphones =
          (Inr (''ORD'' @ to_string_int 1700000000, getMethodName CashPayment, tot2), ft2)"
       "getTotalAmount (file_store file_two_headphones) = Inr tot2" "isEmpty (file_store ft2)"
       "orders_log ft2 = orders_log file_two_headphones"
    by blast
  from r2(2) tv have tot2: "tot2 = 2 * getPrice headphones" by simp
  have b: "\<exists>ft'. checkout_file 1700000000 False 1 file_two_headphones =
        (Inr (''ORD1700000000'', ''Cash'', 2 * getPrice headphones), ft') \<and>
      isEmpty (file_store ft') \<and> orders_log ft' = None"
    using r2 by (intro exI [of _ ft2]) (simp add: tot2 oid log)
  from f sel a b show ?thesis by (intro conjI)
qed


text \<open>
  Claim C5 as stated has an error surfaced and the cart kept when the append fails. With
  two headphones in the cart and a log file that cannot be opened, the menu pass prints
  the success message and the receipt, prints no error, writes no log, and the cart is
  empty afterwards.
\<close>

theorem checkout_file_open_failure_counterexample:
  "\<not> isEmpty (file_store file_two_headphones) \<and>
   main_choice2_file CHR ''Y'' (Some 1) 1700000000 False file_two_headphones =
     (\<lparr>file_store = \<lparr>heap = [None], cart = \<lparr>getItems = [], capacity = 10\<rparr>\<rparr>,
       orders_log = None\<rparr>,
      [ShowCart [\<lparr>getProduct = headphones, getQuantity = 2\<rparr>],
       Print ''\<newline>You have successfully checked out the products!\<newline>'',
       Receipt ''ORD1700000000'' ''Cash'' (2 * getPrice headphones)],
      Continue) \<and>
   isEmpty (file_store (fst (main_choice2_file CHR ''Y'' (Some 1) 1700000000 False
       file_two_headphones)))"
  by code_simp


section \<open>Properties of the views and of the payment prompt\<close>

text \<open>
  In a well-formed state the variant with the order array shows every stored order, in
  the order of the array, and throws \<^verbatim>\<open>NoOrdersException\<close> exactly when there is none.
\<close>

lemma load_items_alloc:
  "\<forall>a \<in> set xs. deref h a \<noteq> None \<Longrightarrow> load_items h xs = Inr (List.map_filter (deref h) xs)"
  by (induction xs) (auto simp: List.map_filter_simps)

lemma displayCart_lines:
  assumes "wf_store s"
  shows "displayCart s =
     Inr (if isEmpty s then [Print ''Your shopping cart is empty.\<newline>''] else [ShowCart (cart_lines s)])"
proof -
  from assms have "\<forall>a \<in> set (getItems (cart s)). deref (heap s) a \<noteq> None"
    by (simp add: wf_store_def)
  from load_items_alloc [OF this] show ?thesis
    by (simp add: displayCart_def isEmpty_def cart_lines_def)
qed

lemma display_orders_alloc:
  "\<forall>ord \<in> set ords. \<forall>a \<in> set (order_items ord). deref h a \<noteq> None \<Longrightarrow>
   display_orders h ords =
     Inr (map (\<lambda>ord. \<lparr>shown_id = orderId ord, shown_method = paymentMethod ord,
                       shown_items = List.map_filter (deref h) (order_items ord),
                       shown_total = totalAmount ord\<rparr>) ords)"
  by (induction ords) (simp_all add: load_items_alloc)

lemma viewOrders_mem_all:
  assumes "wf_mem st"
  shows "viewOrders_mem st =
     (if orders st = [] then Inl NoOrdersException
      else Inr (map (\<lambda>ord. \<lparr>shown_id = orderId ord, shown_method = paymentMethod ord,
                       shown_items = order_lines st ord, shown_total = totalAmount ord\<rparr>)
                  (orders st)))"
proof -
  from assms have "\<forall>ord \<in> set (orders st). \<forall>a \<in> set (order_items ord).
      deref (heap (mem_store st)) a \<noteq> None"
    by (simp add: wf_mem_def)
  from display_orders_alloc [OF this] show ?thesis
    by (simp add: viewOrders_mem_def order_lines_def)
qed


text \<open>
  The variant with the log file throws \<^verbatim>\<open>NoOrdersException\<close> exactly when the file
  does not exist or none of its lines holds the marker.
\<close>

lemma substr_error: "substr s pos len = Inl e \<Longrightarrow> e = OutOfRange"
  by (simp add: substr_def split: if_splits)

lemma parse_header_error: "parse_header line = Inl e \<Longrightarrow> e = OutOfRange"
  by (auto simp: parse_header_def Let_def split: sum.splits dest: substr_error)

lemma parse_item_error: "parse_item line = Inl e \<Longrightarrow> e = OutOfRange"
  by (auto simp: parse_item_def Let_def split: sum.splits if_splits dest: substr_error)

lemma parse_items_error: "parse_items ls = Inl e \<Longrightarrow> e = OutOfRange"
  by (induction ls) (auto split: sum.splits dest: parse_item_error)

lemma scan_orders_error: "scan_orders ls = Inl e \<Longrightarrow> e = OutOfRange"
  by (induction ls rule: scan_orders.induct)
     (auto split: sum.splits if_splits prod.splits dest: parse_header_error parse_items_error)

lemma scan_orders_none_iff:
  "scan_orders ls = Inr [] \<longleftrightarrow> (\<forall>l \<in> set ls. str_find l marker 0 = npos)"
  by (induction ls rule: scan_orders.induct) (auto split: sum.splits prod.splits)

lemma viewOrders_file_NoOrders_iff:
  "viewOrders_file logFile = Inl NoOrdersException \<longleftrightarrow>
     (case logFile of
        None \<Rightarrow> True
      | Some content \<Rightarrow> \<forall>l \<in> set (getlines [] content). str_find l marker 0 = npos)"
proof (cases logFile)
  case None
  then show ?thesis by (simp add: viewOrders_file_def)
next
  case (Some content)
  show ?thesis
  proof (cases "scan_orders (getlines [] content)")
    case (Inl e)
    with scan_orders_error [OF Inl] scan_orders_none_iff [of "getlines [] content"] Some
    show ?thesis by (auto simp: viewOrders_file_def)
  next
    case (Inr found)
    with scan_orders_none_iff [of "getlines [] content"] Some
    show ?thesis by (auto simp: viewOrders_file_def)
  qed
qed


text \<open>
  A payment choice selects a strategy exactly when it is 1, 2 or 3. The variant with the
  log file rejects every other input and keeps its state, and its menu branch always
  returns to the menu; the variant with the order array runs the checkout with the null
  strategy.
\<close>

lemma select_strategy_range:
  "select_strategy pc \<noteq> None \<longleftrightarrow> 1 \<le> sint pc \<and> sint pc \<le> 3"
proof
  assume "select_strategy pc \<noteq> None"
  then have "pc = 1 \<or> pc = 2 \<or> pc = 3"
    by (auto simp: select_strategy_def split: if_splits)
  then show "1 \<le> sint pc \<and> sint pc \<le> 3" by auto
next
  assume r: "1 \<le> sint pc \<and> sint pc \<le> 3"
  then have "sint pc = 1 \<or> sint pc = 2 \<or> sint pc = 3" by arith
  moreover have "pc = word_of_int (sint pc)" by simp
  ultimately have "pc = 1 \<or> pc = 2 \<or> pc = 3" by (metis word_of_int_1 word_of_int_numeral)
  then show "select_strategy pc \<noteq> None" by (auto simp: select_strategy_def)
qed

lemma main_choice2_file_continues:
  assumes "wf_store (file_store st)"
  shows "snd (snd (main_choice2_file c input now can_open st)) = Continue"
proof -
  note shown = displayCart_lines [OF assms]
  show ?thesis
  proof (cases "isEmpty (file_store st) \<or> toupper c \<noteq> CHR ''Y''")
    case True
    then show ?thesis by (auto simp: main_choice2_file_def shown)
  next
    case False
    then have ne: "\<not> isEmpty (file_store st)" and y: "toupper c = CHR ''Y''" by auto
    show ?thesis
    proof (cases input)
      case None
      with ne y show ?thesis
        by (simp add: main_choice2_file_def shown getValidatedInput_def)
    next
      case (Some pc)
      show ?thesis
      proof (cases "select_strategy pc")
        case None
        with select_strategy_range [of pc] have "sint pc < 1 \<or> 3 < sint pc" by auto
        with ne y Some show ?thesis
          by (simp add: main_choice2_file_def shown getValidatedInput_def)
      next
        case (Some m)
        with select_strategy_range [of pc] have r: "\<not> (sint pc < 1 \<or> 3 < sint pc)" by auto
        from checkout_file_ok [OF assms ne Some, of now can_open] obtain r' st' where
          "checkout_file now can_open pc st = (Inr r', st')" by blast
        with ne y \<open>input = Some pc\<close> r show ?thesis
          by (simp add: main_choice2_file_def shown getValidatedInput_def split: prod.splits)
      qed
    qed
  qed
qed

lemma main_choice2_file_invalid:
  assumes "wf_store (file_store st)"
    "case input of None \<Rightarrow> True | Some pc \<Rightarrow> select_strategy pc = None"
  shows "fst (main_choice2_file c input now can_open st) = st"
proof (cases input)
  case None
  then show ?thesis
    by (simp add: main_choice2_file_def displayCart_lines [OF assms(1)] getValidatedInput_def)
next
  case (Some pc)
  with assms(2) select_strategy_range [of pc] have "sint pc < 1 \<or> 3 < sint pc" by auto
  with Some show ?thesis
    by (simp add: main_choice2_file_def displayCart_lines [OF assms(1)] getValidatedInput_def)
qed

lemma main_choice2_mem_null:
  assumes "wf_mem st" "\<not> isEmpty (mem_store st)" "toupper c = CHR ''Y''"
    "select_strategy pc = None"
  shows "main_choice2_mem c (Some pc) st =
     (st, [ShowCart (cart_lines (mem_store st))], Crash NullPointerDereference)"
proof -
  from assms(1) have "wf_store (mem_store st)" by (simp add: wf_mem_def)
  from displayCart_lines [OF this] checkout_mem_null [OF assms(1,2,4)] assms(2,3)
  show ?thesis
    by (simp add: main_choice2_mem_def getValidatedInput_def catch_all_def)
qed

section \<open>Viewing the orders\<close>

text \<open>
  Claim C6 says that the orders of the log are returned oldest first. The run below
  checks out two headphones and then a laptop; the log holds the two blocks, in order.
  \<^verbatim>\<open>viewOrders\<close> takes the total line of the first block for an item line, and then
  reads the line after the separator, which is the header of the second block, as the
  total line: the second order is not returned.
\<close>

theorem viewOrders_file_second_order_lost:
  "log_after two_checkouts =
     Inr [''[LOG] -> Order ID: ORD1700000000 has been successfully checked out and paid using Cash.'',
          ''3'' @ [tab] @ ''Headphones'' @ [tab] @ ''99.990000'' @ [tab] @ ''2'',
          ''Total Amount: $199.98'',
          [],
          ''[LOG] -> Order ID: ORD1700000060 has been successfully checked out and paid using Credit/Debit Card.'',
          ''1'' @ [tab] @ ''Laptop'' @ [tab] @ ''999.990000'' @ [tab] @ ''1'',
          ''Total Amount: $999.99'',
          []] \<and>
   view_after two_checkouts =
     Inr [\<lparr>parsed_id = ''ORD1700000000'', parsed_method = ''Cash'',
           parsed_items = [(''3'', ''Headphones'', ''99.990000'', ''2'')],
           parsed_total = None\<rparr>]"
  by code_simp


text \<open>
  Claim C7 says that reading back a written order gives its id, method, items and
  total. The run below checks out two headphones; the log holds the block with its total
  line. \<^verbatim>\<open>viewOrders\<close> extracts the id, the method and the item, and no total: it looks
  for the total line after the empty separator line, and the block has it before.
\<close>

theorem viewOrders_file_total_lost:
  "log_after headphones_twice_checkout =
     Inr [''[LOG] -> Order ID: ORD1700000000 has been successfully checked out and paid using Cash.'',
          ''3'' @ [tab] @ ''Headphones'' @ [tab] @ ''99.990000'' @ [tab] @ ''2'',
          ''Total Amount: $199.98'',
          []] \<and>
   view_after headphones_twice_checkout =
     Inr [\<lparr>parsed_id = ''ORD1700000000'', parsed_method = ''Cash'',
           parsed_items = [(''3'', ''Headphones'', ''99.990000'', ''2'')],
           parsed_total = None\<rparr>]"
  by code_simp


section \<open>A payment choice outside 1 to 3\<close>

text \<open>
  Claim C8 says that a payment choice outside 1 to 3 is reported and the menu goes on.
  With two headphones in the cart, the answer Y and the payment choice 4, the variant
  with the order array calls \<^verbatim>\<open>pay\<close> through the null pointer the \<^verbatim>\<open>switch\<close> has left;
  the variant with the log file reports the choice as invalid, keeps the state and
  continues.
\<close>

theorem payment_choice_out_of_range:
  "main_choice2_mem CHR ''Y'' (Some 4) mem_two_headphones =
     (mem_two_headphones, [ShowCart [\<lparr>getProduct = headphones, getQuantity = 2\<rparr>]],
      Crash NullPointerDereference) \<and>
   main_choice2_file CHR ''Y'' (Some 4) 1700000000 True file_two_headphones =
     (file_two_headphones,
      [ShowCart [\<lparr>getProduct = headphones, getQuantity = 2\<rparr>],
       Error ''Invalid payment method. Please select 1-3.''],
      Continue)"
  by code_simp

end
